theory Spec2Isabelle
  imports Main
begin

section \<open>Configuration surface\<close>

text \<open>
  The process environment read by \<^verbatim>\<open>index.js\<close>. A variable that is not set is
  \<open>None\<close>. \<^verbatim>\<open>NODE_ENV\<close> is listed because the test suite reads it; \<^verbatim>\<open>index.js\<close>
  itself never does.
\<close>

record config =
  PORT :: "string option"
  BASE_URL :: "string option"
  GOOGLE_CLIENT_ID :: "string option"
  GOOGLE_CLIENT_SECRET :: "string option"
  DATABASE_URL :: "string option"
  SESSION_SECRET :: "string option"
  LOG_LEVEL :: "string option"
  NODE_ENV :: "string option"

text \<open>JavaScript's \<^verbatim>\<open>x || d\<close> on a string that may be undefined: the empty string is falsy.\<close>

definition or_default :: "string option \<Rightarrow> string \<Rightarrow> string" where
  "or_default x d = (case x of None \<Rightarrow> d | Some s \<Rightarrow> if s = [] then d else s)"

record cookie_options =
  secure :: bool
  httpOnly :: bool
  maxAge :: int

record session_options =
  secret :: string
  resave :: bool
  saveUninitialized :: bool
  cookie :: cookie_options

text \<open>The argument of \<^verbatim>\<open>session({...})\<close>, \<^verbatim>\<open>index.js\<close> lines 39 to 52.\<close>

definition session_config :: "config \<Rightarrow> session_options" where
  "session_config cfg =
     \<lparr>secret = or_default (SESSION_SECRET cfg) ''set_the_code_on_fire_and_watch_it_burn'',
      resave = False,
      saveUninitialized = False,
      cookie = \<lparr>secure = False, httpOnly = True, maxAge = 1000 * 60 * 60 * 24\<rparr>\<rparr>"

section \<open>Faults\<close>

text \<open>
  A JavaScript error object as the error handler reads it: an optional numeric
  \<^verbatim>\<open>status\<close> and a \<^verbatim>\<open>message\<close>.
\<close>

record err =
  status :: "int option"
  message :: string

section \<open>The User table\<close>

text \<open>
  The object \<^verbatim>\<open>userData\<close> built from a Google profile, and a row of the table
  \<^verbatim>\<open>User\<close> of \<^verbatim>\<open>migration.sql\<close>. In \<^verbatim>\<open>userData\<close> the value \<open>None\<close> is JavaScript's
  \<^verbatim>\<open>undefined\<close>; in a row it is SQL's \<^verbatim>\<open>NULL\<close>. The column \<^verbatim>\<open>id\<close> is \<open>user_id\<close> here.
\<close>

record userData =
  googleId :: string
  email :: "string option"
  name :: "string option"
  picture :: "string option"

record User = userData +
  user_id :: int
  createdAt :: nat

text \<open>
  The table with SQLite's \<^verbatim>\<open>AUTOINCREMENT\<close> counter (\<open>seq\<close>: the largest \<^verbatim>\<open>id\<close> ever
  handed out).
\<close>

record store =
  rows :: "User list"
  seq :: int

definition empty_store :: store where
  "empty_store = \<lparr>rows = [], seq = 0\<rparr>"

text \<open>
  The \<^verbatim>\<open>update\<close> argument of \<^verbatim>\<open>prisma.user.upsert\<close>. A field that is \<^verbatim>\<open>undefined\<close>
  (\<open>None\<close>) is left as it is by Prisma.
\<close>

record update_data =
  set_googleId :: "string option"
  set_email :: "string option"
  set_name :: "string option"
  set_picture :: "string option"

definition apply_update :: "update_data \<Rightarrow> User \<Rightarrow> User" where
  "apply_update upd old =
     old\<lparr>googleId := (case set_googleId upd of None \<Rightarrow> googleId old | Some g \<Rightarrow> g),
         email := (case set_email upd of None \<Rightarrow> email old | Some e \<Rightarrow> Some e),
         name := (case set_name upd of None \<Rightarrow> name old | Some n \<Rightarrow> Some n),
         picture := (case set_picture upd of None \<Rightarrow> picture old | Some p \<Rightarrow> Some p)\<rparr>"

definition create_row :: "userData \<Rightarrow> int \<Rightarrow> nat \<Rightarrow> User" where
  "create_row d i t =
     \<lparr>googleId = googleId d, email = email d, name = name d, picture = picture d,
      user_id = i, createdAt = t\<rparr>"

text \<open>\<^verbatim>\<open>AUTOINCREMENT\<close>: one more than the largest \<^verbatim>\<open>id\<close> in the table or ever handed out.\<close>

definition next_id :: "store \<Rightarrow> int" where
  "next_id s = fold max (map user_id (rows s)) (seq s) + 1"

text \<open>
  The unique indexes \<^verbatim>\<open>User_googleId_key\<close> and \<^verbatim>\<open>User_email_key\<close>: whether a row other
  than \<open>self\<close> already holds the value. \<^verbatim>\<open>NULL\<close> never collides.
\<close>

definition googleId_taken :: "User list \<Rightarrow> int \<Rightarrow> string \<Rightarrow> bool" where
  "googleId_taken rs self g = list_ex (\<lambda>u. user_id u \<noteq> self \<and> googleId u = g) rs"

definition email_taken :: "User list \<Rightarrow> int \<Rightarrow> string option \<Rightarrow> bool" where
  "email_taken rs self e =
     (case e of None \<Rightarrow> False
      | Some v \<Rightarrow> list_ex (\<lambda>u. user_id u \<noteq> self \<and> email u = Some v) rs)"

definition unique_violation :: "string \<Rightarrow> err" where
  "unique_violation field =
     \<lparr>status = None, message = ''Unique constraint failed on the fields: ('' @ field @ '')''\<rparr>"

definition replace_row :: "User \<Rightarrow> User list \<Rightarrow> User list" where
  "replace_row new rs = map (\<lambda>u. if user_id u = user_id new then new else u) rs"

text \<open>
  \<^verbatim>\<open>prisma.user.upsert({where: {googleId}, update, create})\<close> on this table at database
  time \<open>now\<close>: the row found by \<^verbatim>\<open>googleId\<close> is updated, else a row is inserted. A
  unique index that the write would break rejects it and leaves the table as it was.
  Prisma sends SQLite one \<^verbatim>\<open>INSERT ... ON CONFLICT DO UPDATE\<close>, which takes an \<^verbatim>\<open>id\<close> from
  the counter before the conflict turns it into an update: the counter advances on an
  update too, and the \<^verbatim>\<open>id\<close> taken is never used.
\<close>

definition upsert ::
  "store \<Rightarrow> nat \<Rightarrow> string \<Rightarrow> update_data \<Rightarrow> userData \<Rightarrow> err + (User \<times> store)" where
  "upsert s now wh upd cre =
     (case find (\<lambda>u. googleId u = wh) (rows s) of
        Some old \<Rightarrow>
          (let new = apply_update upd old in
           if googleId_taken (rows s) (user_id old) (googleId new)
             then Inl (unique_violation ''googleId'')
           else if email_taken (rows s) (user_id old) (email new)
             then Inl (unique_violation ''email'')
           else Inr (new, \<lparr>rows = replace_row new (rows s), seq = next_id s\<rparr>))
      | None \<Rightarrow>
          (let new = create_row cre (next_id s) now in
           if googleId_taken (rows s) (user_id new) (googleId new)
             then Inl (unique_violation ''googleId'')
           else if email_taken (rows s) (user_id new) (email new)
             then Inl (unique_violation ''email'')
           else Inr (new, \<lparr>rows = rows s @ [new], seq = user_id new\<rparr>)))"

text \<open>
  The call of the Google strategy's verify callback, \<^verbatim>\<open>index.js\<close> lines 100 to 108: the
  key is \<^verbatim>\<open>userData.googleId\<close>, the update carries email, name and picture, the create
  is \<^verbatim>\<open>userData\<close>.
\<close>

definition upsert_user :: "store \<Rightarrow> nat \<Rightarrow> userData \<Rightarrow> err + (User \<times> store)" where
  "upsert_user s now d =
     upsert s now (googleId d)
       \<lparr>set_googleId = None, set_email = email d, set_name = name d, set_picture = picture d\<rparr>
       d"

section \<open>Schema constraints and runs of upserts\<close>

text \<open>
  A column is unique-or-null when no two rows (rows with different \<^verbatim>\<open>id\<close>) hold the
  same value other than \<^verbatim>\<open>NULL\<close> in it.
\<close>

definition column_unique :: "(User \<Rightarrow> string option) \<Rightarrow> User list \<Rightarrow> bool" where
  "column_unique col rs =
     list_all (\<lambda>u. list_all (\<lambda>v. col u \<noteq> None \<and> col u = col v \<longrightarrow> user_id u = user_id v) rs) rs"

text \<open>
  What the primary key and the two unique indexes of \<^verbatim>\<open>migration.sql\<close> demand of a
  table.
\<close>

definition store_ok :: "store \<Rightarrow> bool" where
  "store_ok s = (distinct (map user_id (rows s)) \<and> distinct (map googleId (rows s)) \<and> column_unique email (rows s))"

text \<open>
  A run of upserts, each at its own database time. An upsert that is rejected leaves the
  table as it was (the request that made it fails; later requests go on).
\<close>

fun upsert_all :: "store \<Rightarrow> (nat \<times> string \<times> update_data \<times> userData) list \<Rightarrow> store" where
  "upsert_all s [] = s"
| "upsert_all s ((t, wh, upd, cre) # ops) =
     (case upsert s t wh upd cre of Inl e \<Rightarrow> upsert_all s ops | Inr (u, s') \<Rightarrow> upsert_all s' ops)"

definition upsert_op :: "nat \<Rightarrow> userData \<Rightarrow> nat \<times> string \<times> update_data \<times> userData" where
  "upsert_op t d = (t, googleId d,
     \<lparr>set_googleId = None, set_email = email d, set_name = name d, set_picture = picture d\<rparr>, d)"

text \<open>Sample profiles for the concrete runs below.\<close>

definition alice :: userData where
  "alice = \<lparr>googleId = ''g-1'', email = Some ''alice@example.com'', name = Some ''Sam'',
            picture = Some ''p.png''\<rparr>"

definition alice2 :: userData where
  "alice2 = \<lparr>googleId = ''g-1'', email = Some ''alice@example.org'', name = Some ''Alice'',
             picture = None\<rparr>"

definition alice_bare :: userData where
  "alice_bare = \<lparr>googleId = ''g-1'', email = None, name = None, picture = None\<rparr>"

definition bob :: userData where
  "bob = \<lparr>googleId = ''g-2'', email = Some ''bob@example.com'', name = Some ''Sam'',
          picture = Some ''p.png''\<rparr>"

definition alice_row :: User where
  "alice_row = \<lparr>googleId = ''g-1'', email = Some ''alice@example.com'', name = Some ''Sam'',
                picture = Some ''p.png'', user_id = 1, createdAt = 10\<rparr>"

definition alice2_row :: User where
  "alice2_row = \<lparr>googleId = ''g-1'', email = Some ''alice@example.org'', name = Some ''Alice'',
                 picture = Some ''p.png'', user_id = 1, createdAt = 10\<rparr>"

definition bob_row :: User where
  "bob_row = \<lparr>googleId = ''g-2'', email = Some ''bob@example.com'', name = Some ''Sam'',
              picture = Some ''p.png'', user_id = 2, createdAt = 20\<rparr>"

section \<open>Requests and what a request does\<close>

text \<open>
  The levels of \<^verbatim>\<open>logger.js\<close>, and what a request does that can be seen from outside:
  log lines, the principal reference written into \<^verbatim>\<open>req.session\<close>, the session
  store being asked to save and acknowledging it, and the responses. \<^verbatim>\<open>Redirect\<close> is
  \<^verbatim>\<open>res.redirect\<close> (status 302), \<^verbatim>\<open>Page\<close> is \<^verbatim>\<open>res.render\<close> of a view (status 200) with
  the users handed to it, \<^verbatim>\<open>ErrorPage\<close> is the view \<^verbatim>\<open>error\<close> with a status and a
  message, \<^verbatim>\<open>Json\<close> is \<^verbatim>\<open>res.status(..).json(..)\<close>, \<^verbatim>\<open>NotFound\<close> is Express's answer
  when no route matches.
\<close>

datatype level = INFO | WARN | ERROR | DEBUG | AUTH | ROUTE | SESSION

datatype event =
    Log level string
  | SessionWrite int
  | SaveRequested
  | SaveAcked
  | Redirect string
  | Page string "User list"
  | ErrorPage int string
  | Json int string
  | NotFound

fun status_code :: "event \<Rightarrow> int option" where
  "status_code (Redirect l) = Some 302"
| "status_code (Page v us) = Some 200"
| "status_code (ErrorPage st m) = Some st"
| "status_code (Json st m) = Some st"
| "status_code NotFound = Some 404"
| "status_code e = None"

definition responses :: "event list \<Rightarrow> event list" where
  "responses tr = filter (\<lambda>e. status_code e \<noteq> None) tr"

datatype http_method = GET | HEAD | POST

text \<open>
  An incoming request: the session id its cookie carries (when the cookie is there and
  its signature is good) and what \<^verbatim>\<open>req.accepts\<close> answers for \<^verbatim>\<open>json\<close> and \<^verbatim>\<open>html\<close>.
\<close>

record request =
  http_method :: http_method
  path :: string
  session_cookie :: "nat option"
  accepts_json :: bool
  accepts_html :: bool

text \<open>The profile that passport-google-oauth20 hands to the verify callback.\<close>

record profile =
  profile_id :: string
  emails :: "string list option"
  displayName :: "string option"
  photos :: "string list option"

text \<open>
  How the Google strategy ends on the callback URL: it fails (the user denied access),
  it errors, or it obtains a profile and calls the verify callback.
\<close>

datatype handshake = HandshakeFail | HandshakeError err | HandshakeProfile profile

text \<open>
  What the collaborators answer during one request: the database clock, the session ids
  the session middleware generates, the faults of the Prisma calls and of the session
  store at each place they are called, and the outcome of the handshake.
\<close>

record env =
  now :: nat
  sid_new :: nat
  sid_regen :: nat
  lookup_fault :: "err option"
  store_fault :: "err option"
  regen_fault :: "err option"
  login_save_fault :: "err option"
  save_fault :: "err option"
  logout_fault :: "err option"
  end_fault :: "err option"
  handshake :: handshake

text \<open>
  The state a request runs in. \<open>db\<close> and \<open>sessions\<close> (the session store: session id to
  session data, of which only \<^verbatim>\<open>passport.user\<close> is kept) outlive the request;
  \<open>sessionID\<close>, \<open>session\<close> (\<^verbatim>\<open>req.session.passport.user\<close>) and \<open>user\<close> (\<^verbatim>\<open>req.user\<close>) are
  set anew by the middleware of every request.
\<close>

record ctx =
  db :: store
  sessions :: "nat \<rightharpoonup> int option"
  sessionID :: nat
  session :: "int option"
  user :: "User option"

datatype flow = Next | NextErr err | Responded

definition trace :: "ctx \<times> event list \<times> 'a \<Rightarrow> event list" where
  "trace r = fst (snd r)"

subsection \<open>Prisma calls\<close>

definition prisma_call :: "err option \<Rightarrow> err + 'a \<Rightarrow> err + 'a" where
  "prisma_call fault r = (case fault of Some e \<Rightarrow> Inl e | None \<Rightarrow> r)"

definition findUnique :: "store \<Rightarrow> int \<Rightarrow> User option" where
  "findUnique s i = find (\<lambda>u. user_id u = i) (rows s)"

text \<open>
  \<^verbatim>\<open>findMany({orderBy: {createdAt: 'desc'}})\<close>; rows of equal \<^verbatim>\<open>createdAt\<close> come newest
  insertion first here.
\<close>

definition findMany :: "store \<Rightarrow> User list" where
  "findMany s = rev (sort_key createdAt (rows s))"

subsection \<open>The session store and passport, as this application calls them\<close>

text \<open>
  \<^verbatim>\<open>req.session.save(cb)\<close>: the store is asked to write the session; when it has, it
  acknowledges and \<^verbatim>\<open>cb\<close> runs without an error, else \<^verbatim>\<open>cb\<close> runs with the store's error.
\<close>

definition session_save :: "err option \<Rightarrow> ctx \<Rightarrow> ctx \<times> event list \<times> err option" where
  "session_save fault c =
     (case fault of
        Some e \<Rightarrow> (c, [SaveRequested], Some e)
      | None \<Rightarrow> (c\<lparr>sessions := (sessions c)(sessionID c \<mapsto> session c)\<rparr>,
                 [SaveRequested, SaveAcked], None))"

text \<open>
  \<^verbatim>\<open>req.session.regenerate(cb)\<close>: the stored session is destroyed and the request gets an
  empty session under a new id.
\<close>

definition session_regenerate :: "env \<Rightarrow> ctx \<Rightarrow> ctx \<times> err option" where
  "session_regenerate env c =
     (case regen_fault env of
        Some e \<Rightarrow> (c\<lparr>sessionID := sid_regen env, session := None\<rparr>, Some e)
      | None \<Rightarrow> (c\<lparr>sessions := (sessions c)(sessionID c := None),
                   sessionID := sid_regen env, session := None\<rparr>, None))"

text \<open>\<^verbatim>\<open>passport.serializeUser\<close>, \<^verbatim>\<open>index.js\<close> lines 124 to 127.\<close>

definition serializeUser :: "User \<Rightarrow> int \<times> event list" where
  "serializeUser u = (user_id u, [Log SESSION ''Saving user reference into session''])"

text \<open>
  \<^verbatim>\<open>req.login(user, cb)\<close> of passport (0.6 and later, which the callback form of
  \<^verbatim>\<open>req.logout\<close> in \<^verbatim>\<open>index.js\<close> needs): the session is regenerated, the serialized
  user is written into it, the session is saved, and only then \<^verbatim>\<open>cb\<close> runs.
\<close>

definition req_login :: "env \<Rightarrow> User \<Rightarrow> ctx \<Rightarrow> ctx \<times> event list \<times> err option" where
  "req_login env u c =
     (case session_regenerate env (c\<lparr>user := Some u\<rparr>) of
        (c1, Some e) \<Rightarrow> (c1\<lparr>user := None\<rparr>, [], Some e)
      | (c1, None) \<Rightarrow>
          (case serializeUser u of
             (obj, ev) \<Rightarrow>
               (case session_save (login_save_fault env) (c1\<lparr>session := Some obj\<rparr>) of
                  (c2, ev2, Some e) \<Rightarrow> (c2\<lparr>user := None\<rparr>, ev @ [SessionWrite obj] @ ev2, Some e)
                | (c2, ev2, None) \<Rightarrow> (c2, ev @ [SessionWrite obj] @ ev2, None))))"

text \<open>
  \<^verbatim>\<open>req.logout(cb)\<close> of passport: the user is removed from the request and from the
  session, the session is saved and then regenerated.
\<close>

definition req_logout :: "env \<Rightarrow> ctx \<Rightarrow> ctx \<times> event list \<times> err option" where
  "req_logout env c =
     (case session_save (logout_fault env) (c\<lparr>user := None, session := None\<rparr>) of
        (c1, ev, Some e) \<Rightarrow> (c1, ev, Some e)
      | (c1, ev, None) \<Rightarrow> (case session_regenerate env c1 of (c2, r) \<Rightarrow> (c2, ev, r)))"

subsection \<open>The verify callback of the Google strategy\<close>

text \<open>\<^verbatim>\<open>xs && xs[0]?.value\<close> on an array that may be undefined or empty.\<close>

definition first_value :: "string list option \<Rightarrow> string option" where
  "first_value xs = (case xs of None \<Rightarrow> None | Some [] \<Rightarrow> None | Some (v # vs) \<Rightarrow> Some v)"

definition map_profile :: "profile \<Rightarrow> userData" where
  "map_profile p =
     \<lparr>googleId = profile_id p, email = first_value (emails p), name = displayName p,
      picture = first_value (photos p)\<rparr>"

text \<open>\<^verbatim>\<open>index.js\<close> lines 85 to 119: \<open>Inr\<close> is \<^verbatim>\<open>done(null, user)\<close>, \<open>Inl\<close> is \<^verbatim>\<open>done(err)\<close>.\<close>

definition verify :: "env \<Rightarrow> profile \<Rightarrow> store \<Rightarrow> (err + User) \<times> store \<times> event list" where
  "verify env p s =
     (let userData = map_profile p;
          pre = [Log AUTH ''Received profile from Google'',
                 Log AUTH ''Mapped Google profile to local user data'']
      in case prisma_call (store_fault env) (upsert_user s (now env) userData) of
           Inr (u, s') \<Rightarrow> (Inr u, s', pre @ [Log AUTH ''User stored in database (Prisma upsert)''])
         | Inl e \<Rightarrow> (Inl e, s, pre @ [Log ERROR ''Failed to store user in database'']))"

text \<open>\<^verbatim>\<open>passport.deserializeUser\<close>, \<^verbatim>\<open>index.js\<close> lines 130 to 141.\<close>

definition deserializeUser :: "env \<Rightarrow> store \<Rightarrow> int \<Rightarrow> (err + User option) \<times> event list" where
  "deserializeUser env s i =
     (case prisma_call (lookup_fault env) (Inr (findUnique s i)) of
        Inr u \<Rightarrow> (Inr u, [Log SESSION ''Loading user from session''])
      | Inl e \<Rightarrow> (Inl e, [Log SESSION ''Loading user from session'',
                          Log ERROR ''Error loading user from database during deserializeUser'']))"

subsection \<open>Middleware\<close>

text \<open>
  \<^verbatim>\<open>session(...)\<close> at the start of a request: the session of the cookie's id is loaded
  from the store; without a cookie, or when the store has no such session, the request
  gets an empty session under a new id.
\<close>

definition session_middleware :: "env \<Rightarrow> request \<Rightarrow> ctx \<Rightarrow> ctx" where
  "session_middleware env rq c =
     (case session_cookie rq of
        None \<Rightarrow> c\<lparr>sessionID := sid_new env, session := None, user := None\<rparr>
      | Some sid \<Rightarrow>
          (case sessions c sid of
             None \<Rightarrow> c\<lparr>sessionID := sid_new env, session := None, user := None\<rparr>
           | Some data \<Rightarrow> c\<lparr>sessionID := sid, session := data, user := None\<rparr>))"

text \<open>
  \<^verbatim>\<open>passport.session()\<close>: a principal reference in the session is deserialized. An error
  goes to the error handler; no user removes the reference from the session and the
  request goes on without \<^verbatim>\<open>req.user\<close>; a user becomes \<^verbatim>\<open>req.user\<close>.
\<close>

definition passport_session :: "env \<Rightarrow> ctx \<Rightarrow> ctx \<times> event list \<times> flow" where
  "passport_session env c =
     (case session c of
        None \<Rightarrow> (c, [], Next)
      | Some su \<Rightarrow>
          (case deserializeUser env (db c) su of
             (Inl e, ev) \<Rightarrow> (c, ev, NextErr e)
           | (Inr None, ev) \<Rightarrow> (c\<lparr>session := None\<rparr>, ev, Next)
           | (Inr (Some u), ev) \<Rightarrow> (c\<lparr>user := Some u\<rparr>, ev, Next)))"

text \<open>\<^verbatim>\<open>req.isAuthenticated()\<close> of passport: whether \<^verbatim>\<open>req.user\<close> is set.\<close>

definition isAuthenticated :: "ctx \<Rightarrow> bool" where
  "isAuthenticated c = (user c \<noteq> None)"

text \<open>\<^verbatim>\<open>ensureAuthenticated\<close>, \<^verbatim>\<open>index.js\<close> lines 144 to 165.\<close>

definition ensureAuthenticated :: "ctx \<Rightarrow> ctx \<times> event list \<times> flow" where
  "ensureAuthenticated c =
     (let isAuth = isAuthenticated c in
      if isAuth
      then (c, [Log AUTH ''Checking if user can access protected route'',
                Log AUTH ''Access granted to protected route''], Next)
      else (c, [Log AUTH ''Checking if user can access protected route'',
                Log WARN ''Access denied, redirecting user to /login'',
                Redirect ''/login''], Responded))"

text \<open>
  \<^verbatim>\<open>passport.authenticate('google', { failureRedirect: '/login' })\<close> on the callback URL.
  A failed handshake redirects to \<^verbatim>\<open>failureRedirect\<close>; an error goes to the error
  handler; a profile goes through \<open>verify\<close>, and the user it yields is logged in with
  \<^verbatim>\<open>req.login\<close> before the next handler runs.
\<close>

definition passport_authenticate :: "env \<Rightarrow> ctx \<Rightarrow> ctx \<times> event list \<times> flow" where
  "passport_authenticate env c =
     (case handshake env of
        HandshakeFail \<Rightarrow> (c, [Redirect ''/login''], Responded)
      | HandshakeError e \<Rightarrow> (c, [], NextErr e)
      | HandshakeProfile p \<Rightarrow>
          (case verify env p (db c) of
             (Inl e, s', ev) \<Rightarrow> (c\<lparr>db := s'\<rparr>, ev, NextErr e)
           | (Inr u, s', ev) \<Rightarrow>
               (case req_login env u (c\<lparr>db := s'\<rparr>) of
                  (c1, ev1, Some e) \<Rightarrow> (c1, ev @ ev1, NextErr e)
                | (c1, ev1, None) \<Rightarrow> (c1, ev @ ev1, Next))))"

subsection \<open>Routes\<close>

text \<open>\<^verbatim>\<open>GET /\<close> and \<^verbatim>\<open>GET /login\<close>, \<^verbatim>\<open>index.js\<close> lines 168 to 187.\<close>

definition home :: "ctx \<Rightarrow> ctx \<times> event list \<times> flow" where
  "home c = (c, [Log ROUTE ''Rendering home page (/) for user'', Page ''index'' []], Responded)"

definition login_page :: "ctx \<Rightarrow> ctx \<times> event list \<times> flow" where
  "login_page c = (c, [Log ROUTE ''Rendering login page (/login)'', Page ''login'' []], Responded)"

text \<open>
  \<^verbatim>\<open>GET /auth/google\<close>, lines 190 to 202: passport redirects the browser to Google's
  authorization endpoint.
\<close>

definition auth_google :: "ctx \<Rightarrow> ctx \<times> event list \<times> flow" where
  "auth_google c =
     (c, [Log ROUTE ''Starting Google OpenID Connect flow'',
          Redirect ''https://accounts.google.com/o/oauth2/v2/auth''], Responded)"

text \<open>\<^verbatim>\<open>GET /auth/google/callback\<close>, lines 205 to 234.\<close>

definition auth_google_callback :: "env \<Rightarrow> ctx \<Rightarrow> ctx \<times> event list \<times> flow" where
  "auth_google_callback env c =
     (let pre = [Log ROUTE ''User returned from Google, handling callback''] in
      case passport_authenticate env c of
        (c1, ev1, Next) \<Rightarrow>
          (case session_save (save_fault env) c1 of
             (c2, ev2, Some e) \<Rightarrow>
               (c2, pre @ ev1 @ [Log AUTH ''Google login succeeded, preparing to open session'']
                     @ ev2 @ [Log ERROR ''Failed to persist session after Google login''],
                NextErr e)
           | (c2, ev2, None) \<Rightarrow>
               (c2, pre @ ev1 @ [Log AUTH ''Google login succeeded, preparing to open session'']
                     @ ev2 @ [Log AUTH ''Session saved, redirecting user to dashboard'',
                              Redirect ''/dashboard''],
                Responded))
      | (c1, ev1, fl) \<Rightarrow> (c1, pre @ ev1, fl))"

text \<open>\<^verbatim>\<open>GET /dashboard\<close>, lines 237 to 256, behind \<open>ensureAuthenticated\<close>.\<close>

definition dashboard :: "env \<Rightarrow> ctx \<Rightarrow> ctx \<times> event list \<times> flow" where
  "dashboard env c =
     (case ensureAuthenticated c of
        (c1, ev, Next) \<Rightarrow>
          (case prisma_call (store_fault env) (Inr (findMany (db c1))) of
             Inr users \<Rightarrow>
               (c1, ev @ [Log ROUTE ''Rendering protected dashboard'', Page ''dashboard'' users],
                Responded)
           | Inl e \<Rightarrow>
               (c1, ev @ [Log ROUTE ''Rendering protected dashboard'',
                          Log ERROR ''Failed to load users for dashboard''], NextErr e))
      | (c1, ev, fl) \<Rightarrow> (c1, ev, fl))"

text \<open>\<^verbatim>\<open>GET /logout\<close>, lines 259 to 272.\<close>

definition logout :: "env \<Rightarrow> ctx \<Rightarrow> ctx \<times> event list \<times> flow" where
  "logout env c =
     (case req_logout env c of
        (c1, ev, Some e) \<Rightarrow>
          (c1, [Log ROUTE ''User requested logout''] @ ev @ [Log ERROR ''Error while logging user out''],
           NextErr e)
      | (c1, ev, None) \<Rightarrow>
          (c1, [Log ROUTE ''User requested logout''] @ ev
                 @ [Log AUTH ''User session closed successfully, redirecting to home'', Redirect ''/''],
           Responded))"

text \<open>\<^verbatim>\<open>GET /dev-login\<close>, lines 275 to 302.\<close>

definition testUser :: userData where
  "testUser = \<lparr>googleId = ''dev-google-123'', email = Some ''dev@example.com'',
               name = Some ''Dev Tester'', picture = Some ''''\<rparr>"

definition dev_login :: "env \<Rightarrow> ctx \<Rightarrow> ctx \<times> event list \<times> flow" where
  "dev_login env c =
     (let pre = [Log ROUTE ''Dev login endpoint called (/dev-login)''] in
      case prisma_call (store_fault env)
             (upsert (db c) (now env) (googleId testUser)
                \<lparr>set_googleId = Some (googleId testUser), set_email = email testUser,
                 set_name = name testUser, set_picture = picture testUser\<rparr>
                testUser) of
        Inl e \<Rightarrow> (c, pre @ [Log ERROR ''Error during dev login''], NextErr e)
      | Inr (u, s') \<Rightarrow>
          (case req_login env u (c\<lparr>db := s'\<rparr>) of
             (c1, ev, Some e) \<Rightarrow> (c1, pre @ ev, NextErr e)
           | (c1, ev, None) \<Rightarrow>
               (c1, pre @ ev @ [Log AUTH ''Dev user logged in successfully'',
                                Redirect ''/dashboard''], Responded)))"

text \<open>The global error handler, lines 305 to 324. \<^verbatim>\<open>err.status || 500\<close>: zero is falsy.\<close>

definition resolve_status :: "err \<Rightarrow> int" where
  "resolve_status e = (case status e of None \<Rightarrow> 500 | Some n \<Rightarrow> if n = 0 then 500 else n)"

definition error_handler :: "request \<Rightarrow> err \<Rightarrow> event list" where
  "error_handler rq e =
     (let st = resolve_status e in
      Log ERROR ''Unhandled error while processing request'' #
      (if accepts_json rq \<and> \<not> accepts_html rq
       then [Json st (if st = 500 then ''Internal server error'' else message e)]
       else [ErrorPage st (if st = 500 then ''Ocorreu um erro inesperado.'' else message e)]))"

subsection \<open>The application\<close>

datatype route = Home | Login | AuthGoogle | AuthGoogleCallback | Dashboard | Logout | DevLogin

text \<open>
  The routes that \<^verbatim>\<open>index.js\<close> registers, in its order. All are registered with
  \<^verbatim>\<open>app.get\<close>, whatever the configuration.
\<close>

definition routes :: "config \<Rightarrow> (string \<times> route) list" where
  "routes cfg =
     [(''/'', Home), (''/login'', Login), (''/auth/google'', AuthGoogle),
      (''/auth/google/callback'', AuthGoogleCallback), (''/dashboard'', Dashboard),
      (''/logout'', Logout), (''/dev-login'', DevLogin)]"

definition dispatch :: "config \<Rightarrow> request \<Rightarrow> route option" where
  "dispatch cfg rq =
     (if http_method rq = GET \<or> http_method rq = HEAD then map_of (routes cfg) (path rq) else None)"

fun handler :: "route \<Rightarrow> env \<Rightarrow> ctx \<Rightarrow> ctx \<times> event list \<times> flow" where
  "handler Home env c = home c"
| "handler Login env c = login_page c"
| "handler AuthGoogle env c = auth_google c"
| "handler AuthGoogleCallback env c = auth_google_callback env c"
| "handler Dashboard env c = dashboard env c"
| "handler Logout env c = logout env c"
| "handler DevLogin env c = dev_login env c"

text \<open>
  The end of the response. express-session saves a session that the request changed
  and has not saved yet (\<^verbatim>\<open>resave: false\<close>, \<^verbatim>\<open>saveUninitialized: false\<close>); a store error
  there is only logged.
\<close>

definition session_changed :: "ctx \<Rightarrow> bool" where
  "session_changed c =
     (case sessions c (sessionID c) of None \<Rightarrow> session c \<noteq> None | Some data \<Rightarrow> data \<noteq> session c)"

definition response_end :: "env \<Rightarrow> ctx \<times> event list \<Rightarrow> ctx \<times> event list" where
  "response_end env r =
     (case r of (c, tr) \<Rightarrow>
        if session_changed c
        then (case session_save (end_fault env) c of (c1, ev, x) \<Rightarrow> (c1, tr @ ev))
        else (c, tr))"

text \<open>
  One request through the middleware of \<^verbatim>\<open>index.js\<close> in its order: session, request
  log, passport, the routes, the error handler.
\<close>

definition app :: "config \<Rightarrow> env \<Rightarrow> ctx \<Rightarrow> request \<Rightarrow> ctx \<times> event list" where
  "app cfg env c0 rq =
     (let c = session_middleware env rq c0;
          pre = [Log SESSION ''New HTTP request'']
      in case passport_session env c of
           (c1, ev1, NextErr e) \<Rightarrow> response_end env (c1, pre @ ev1 @ error_handler rq e)
         | (c1, ev1, fl) \<Rightarrow>
             (case dispatch cfg rq of
                None \<Rightarrow> response_end env (c1, pre @ ev1 @ [NotFound])
              | Some r \<Rightarrow>
                  (case handler r env c1 of
                     (c2, ev2, NextErr e) \<Rightarrow>
                       response_end env (c2, pre @ ev1 @ ev2 @ error_handler rq e)
                   | (c2, ev2, fl2) \<Rightarrow> response_end env (c2, pre @ ev1 @ ev2))))"

section \<open>Properties stated on traces\<close>

text \<open>
  Where a trace stands with respect to the principal reference: nothing written, written
  and not yet acknowledged by the session store, or acknowledged.
\<close>

datatype phase = NoWrite | Pending | Acked

text \<open>
  A trace is in order when every redirect to \<^verbatim>\<open>/dashboard\<close> in it comes after a write of
  the principal reference and after the store's acknowledgement of that write.
\<close>

fun write_acked_before_redirect :: "phase \<Rightarrow> event list \<Rightarrow> bool" where
  "write_acked_before_redirect p [] = True"
| "write_acked_before_redirect p (SessionWrite i # es) = write_acked_before_redirect Pending es"
| "write_acked_before_redirect p (SaveAcked # es) =
     write_acked_before_redirect (if p = Pending then Acked else p) es"
| "write_acked_before_redirect p (Redirect l # es) =
     (if l = ''/dashboard'' then p = Acked \<and> write_acked_before_redirect p es
      else write_acked_before_redirect p es)"
| "write_acked_before_redirect p (e # es) = write_acked_before_redirect p es"

fun is_log :: "event \<Rightarrow> bool" where
  "is_log (Log l m) = True"
| "is_log e = False"

text \<open>What surfaces an error: an error log line, the error page, the JSON error body.\<close>

fun is_error_event :: "event \<Rightarrow> bool" where
  "is_error_event (Log ERROR m) = True"
| "is_error_event (ErrorPage st m) = True"
| "is_error_event (Json st m) = True"
| "is_error_event e = False"

text \<open>The message an error response shows.\<close>

fun shown_message :: "event \<Rightarrow> string option" where
  "shown_message (ErrorPage st m) = Some m"
| "shown_message (Json st m) = Some m"
| "shown_message e = None"

text \<open>The generic message of each kind of error response.\<close>

fun generic_message :: "event \<Rightarrow> string" where
  "generic_message (Json st m) = ''Internal server error''"
| "generic_message e = ''Ocorreu um erro inesperado.''"

fun is_json :: "event \<Rightarrow> bool" where
  "is_json (Json st m) = True"
| "is_json e = False"

text \<open>
  Per-request resolution: the session middleware and \<^verbatim>\<open>passport.session()\<close> together
  end in an error, in no user (the request is anonymous) or in a user (authenticated).
\<close>

definition resolve :: "env \<Rightarrow> ctx \<Rightarrow> request \<Rightarrow> err + User option" where
  "resolve env c rq =
     (case passport_session env (session_middleware env rq c) of
        (c1, ev, NextErr e) \<Rightarrow> Inl e
      | (c1, ev, fl) \<Rightarrow> Inr (user c1))"

text \<open>The session store holds the principal reference of the request's session.\<close>

definition principal_stored :: "ctx \<Rightarrow> bool" where
  "principal_stored c = (session c \<noteq> None \<and> sessions c (sessionID c) = Some (session c))"

text \<open>Sample inputs for the concrete runs below: no collaborator fails.\<close>

definition sample_profile :: profile where
  "sample_profile = \<lparr>profile_id = ''g-1'', emails = Some [''alice@example.com''],
                     displayName = Some ''Sam'', photos = Some [''p.png'']\<rparr>"

definition calm :: env where
  "calm = \<lparr>now = 10, sid_new = 1, sid_regen = 2, lookup_fault = None, store_fault = None,
           regen_fault = None, login_save_fault = None, save_fault = None, logout_fault = None,
           end_fault = None, handshake = HandshakeProfile sample_profile\<rparr>"

definition fresh_ctx :: ctx where
  "fresh_ctx = \<lparr>db = empty_store, sessions = Map.empty, sessionID = 0, session = None,
                user = None\<rparr>"

definition production_config :: config where
  "production_config =
     \<lparr>PORT = Some ''3000'', BASE_URL = Some ''https://demo.example.com'',
      GOOGLE_CLIENT_ID = Some ''client-id'', GOOGLE_CLIENT_SECRET = Some ''client-secret'',
      DATABASE_URL = Some ''file:./prod.db'', SESSION_SECRET = Some ''a-long-secret'',
      LOG_LEVEL = Some ''info'', NODE_ENV = Some ''production''\<rparr>"

definition browser_get :: "string \<Rightarrow> nat option \<Rightarrow> request" where
  "browser_get p sid =
     \<lparr>http_method = GET, path = p, session_cookie = sid, accepts_json = False,
      accepts_html = True\<rparr>"

definition unavailable :: err where
  "unavailable = \<lparr>status = Some 503, message = ''The authorization server is unavailable''\<rparr>"

text \<open>
  The specification's words, for comparison with \<open>error_handler\<close>: a fault is
  server-caused when its status is a 5xx, and the message shown is the generic one exactly
  when the fault is server-caused.
\<close>

definition spec_server_caused :: "int \<Rightarrow> bool" where
  "spec_server_caused st = (500 \<le> st \<and> st < 600)"

definition spec_shown_message :: "request \<Rightarrow> err \<Rightarrow> string" where
  "spec_shown_message rq e =
     (if spec_server_caused (resolve_status e)
      then (if accepts_json rq \<and> \<not> accepts_html rq then ''Internal server error''
            else ''Ocorreu um erro inesperado.'')
      else message e)"

section \<open>Session cookie\<close>

text \<open>
  C10. Whatever the configuration, the session cookie is issued with \<^verbatim>\<open>httpOnly\<close> true,
  \<^verbatim>\<open>maxAge\<close> of exactly 24 hours in milliseconds and \<^verbatim>\<open>secure\<close> false: no
  configuration input enables \<^verbatim>\<open>secure\<close>.
\<close>

theorem cookie_attributes_fixed:
  "cookie (session_config cfg) = \<lparr>secure = False, httpOnly = True, maxAge = 86400000\<rparr>"
  by (simp add: session_config_def)

section \<open>The table keeps its constraints\<close>

lemma fold_max_ge: "(a::int) \<le> fold max xs a"
  by (induction xs arbitrary: a) (auto intro: order_trans[OF max.cobounded2])

lemma fold_max_mem: "(x::int) \<in> set xs \<Longrightarrow> x \<le> fold max xs a"
proof (induction xs arbitrary: a)
  case Nil then show ?case by simp
next
  case (Cons y ys)
  show ?case
  proof (cases "x = y")
    case True
    have "y \<le> max y a" by simp
    also have "\<dots> \<le> fold max ys (max y a)" by (rule fold_max_ge)
    finally show ?thesis using True by simp
  next
    case False
    with Cons show ?thesis by simp
  qed
qed

lemma next_id_fresh: "u \<in> set (rows s) \<Longrightarrow> user_id u < next_id s"
  using fold_max_mem[of "user_id u" "map user_id (rows s)" "seq s"]
  by (simp add: next_id_def)

lemma email_unique_iff:
  "column_unique email rs \<longleftrightarrow> (\<forall>u\<in>set rs. \<forall>v\<in>set rs. email u \<noteq> None \<and> email u = email v \<longrightarrow> user_id u = user_id v)"
  by (simp add: column_unique_def list_all_iff)

lemma googleId_taken_iff:
  "googleId_taken rs i g \<longleftrightarrow> (\<exists>u\<in>set rs. user_id u \<noteq> i \<and> googleId u = g)"
  by (simp add: googleId_taken_def list_ex_iff)

lemma email_taken_iff:
  "email_taken rs i e \<longleftrightarrow> (e \<noteq> None \<and> (\<exists>u\<in>set rs. user_id u \<noteq> i \<and> email u = e))"
  by (cases e) (auto simp: email_taken_def list_ex_iff)

lemma map_user_id_replace_row: "map user_id (replace_row new rs) = map user_id rs"
  by (induction rs) (auto simp: replace_row_def)

lemma set_replace_row:
  "set (replace_row new rs) \<subseteq> insert new {u \<in> set rs. user_id u \<noteq> user_id new}"
  by (auto simp: replace_row_def)

lemma replace_row_absent:
  "\<forall>u\<in>set rs. user_id u \<noteq> user_id new \<Longrightarrow> replace_row new rs = rs"
  by (induction rs) (auto simp: replace_row_def)

lemma distinct_googleId_replace_row:
  assumes "distinct (map user_id rs)" "distinct (map googleId rs)"
    and "\<forall>u\<in>set rs. user_id u \<noteq> user_id new \<longrightarrow> googleId u \<noteq> googleId new"
  shows "distinct (map googleId (replace_row new rs))"
  using assms
proof (induction rs)
  case Nil then show ?case by (simp add: replace_row_def)
next
  case (Cons r rs)
  have tl: "distinct (map googleId (replace_row new rs))"
    using Cons by simp
  have rr: "replace_row new (r # rs) = (if user_id r = user_id new then new else r) # replace_row new rs"
    by (simp add: replace_row_def)
  show ?case
  proof (cases "user_id r = user_id new")
    case True
    then have "\<forall>u\<in>set rs. user_id u \<noteq> user_id new" using Cons.prems(1) by (auto simp: image_iff)
    then have same: "replace_row new rs = rs" by (rule replace_row_absent)
    have "googleId new \<notin> googleId ` set rs"
      using Cons.prems(3) \<open>\<forall>u\<in>set rs. user_id u \<noteq> user_id new\<close> by auto
    then show ?thesis using True rr same Cons.prems(2) by simp
  next
    case False
    have "googleId r \<notin> googleId ` set (replace_row new rs)"
    proof
      assume "googleId r \<in> googleId ` set (replace_row new rs)"
      then obtain v where v: "v \<in> set (replace_row new rs)" "googleId v = googleId r" by auto
      from v(1) set_replace_row have "v = new \<or> v \<in> set rs" by blast
      then show False
      proof
        assume "v = new" then show False using Cons.prems(3) False v(2) by auto
      next
        assume "v \<in> set rs" then show False using Cons.prems(2) v(2) by (auto simp: image_iff)
      qed
    qed
    then show ?thesis using False rr tl by simp
  qed
qed

lemma email_unique_replace_row:
  assumes "column_unique email rs"
    and "\<not> email_taken rs (user_id new) (email new)"
  shows "column_unique email (replace_row new rs)"
  unfolding email_unique_iff
proof (intro ballI impI)
  fix u v assume u: "u \<in> set (replace_row new rs)" and v: "v \<in> set (replace_row new rs)"
    and e: "email u \<noteq> None \<and> email u = email v"
  from u set_replace_row have u': "u = new \<or> (u \<in> set rs \<and> user_id u \<noteq> user_id new)" by blast
  from v set_replace_row have v': "v = new \<or> (v \<in> set rs \<and> user_id v \<noteq> user_id new)" by blast
  from assms(2) have nt: "email new = None \<or> (\<forall>w\<in>set rs. user_id w \<noteq> user_id new \<longrightarrow> email w \<noteq> email new)"
    by (auto simp: email_taken_iff)
  show "user_id u = user_id v"
    using u' v' e nt assms(1) unfolding email_unique_iff by metis
qed

lemma email_unique_append:
  assumes "column_unique email rs"
    and "\<not> email_taken rs (user_id new) (email new)"
    and "\<forall>u\<in>set rs. user_id u \<noteq> user_id new"
  shows "column_unique email (rs @ [new])"
  using assms unfolding email_unique_iff email_taken_iff
  by (auto; metis)

lemma upsert_store_ok:
  assumes "store_ok s" "upsert s t wh upd cre = Inr (u, s')"
  shows "store_ok s'"
proof (cases "find (\<lambda>u. googleId u = wh) (rows s)")
  case None
  let ?new = "create_row cre (next_id s) t"
  have id: "user_id ?new = next_id s" by (simp add: create_row_def)
  have fresh: "\<forall>v\<in>set (rows s). user_id v \<noteq> user_id ?new"
    using next_id_fresh[of _ s] id by fastforce
  from assms(2) None have ng: "\<not> googleId_taken (rows s) (user_id ?new) (googleId ?new)"
    and ne: "\<not> email_taken (rows s) (user_id ?new) (email ?new)"
    and s': "s' = \<lparr>rows = rows s @ [?new], seq = user_id ?new\<rparr>"
    by (auto simp: upsert_def Let_def split: if_splits)
  have g: "googleId ?new \<notin> googleId ` set (rows s)"
    using ng fresh by (auto simp: googleId_taken_iff)
  have i: "user_id ?new \<notin> user_id ` set (rows s)" using fresh by auto
  show ?thesis
    using assms(1) g i email_unique_append[OF _ ne fresh] by (simp add: store_ok_def s')
next
  case (Some old)
  let ?new = "apply_update upd old"
  have id: "user_id ?new = user_id old" by (simp add: apply_update_def)
  from assms(2) Some have ng: "\<not> googleId_taken (rows s) (user_id ?new) (googleId ?new)"
    and ne: "\<not> email_taken (rows s) (user_id ?new) (email ?new)"
    and s': "s' = \<lparr>rows = replace_row ?new (rows s), seq = next_id s\<rparr>"
    by (auto simp: upsert_def Let_def id split: if_splits)
  have g: "\<forall>v\<in>set (rows s). user_id v \<noteq> user_id ?new \<longrightarrow> googleId v \<noteq> googleId ?new"
    using ng by (auto simp: googleId_taken_iff)
  show ?thesis
    using assms(1) distinct_googleId_replace_row[OF _ _ g] email_unique_replace_row[OF _ ne]
    by (simp add: store_ok_def s' map_user_id_replace_row)
qed

lemma empty_store_ok: "store_ok empty_store"
  by (simp add: store_ok_def empty_store_def column_unique_def)

lemma upsert_all_store_ok: "store_ok s \<Longrightarrow> store_ok (upsert_all s ops)"
proof (induction s ops rule: upsert_all.induct)
  case (1 s) then show ?case by simp
next
  case (2 s t wh upd cre ops)
  show ?case
  proof (cases "upsert s t wh upd cre")
    case (Inl e) with 2 show ?thesis by simp
  next
    case (Inr p)
    obtain u s' where p: "p = (u, s')" by (cases p)
    have "store_ok s'" using upsert_store_ok[OF "2.prems"] Inr p by simp
    with 2 Inr p show ?thesis by simp
  qed
qed

lemma upsert_Inr_cases:
  assumes "upsert s t wh upd cre = Inr (u, s')"
  obtains (created) "find (\<lambda>u. googleId u = wh) (rows s) = None"
      "u = create_row cre (next_id s) t"
      "s' = \<lparr>rows = rows s @ [u], seq = user_id u\<rparr>"
      "\<not> googleId_taken (rows s) (user_id u) (googleId u)"
      "\<not> email_taken (rows s) (user_id u) (email u)"
  | (updated) old where "find (\<lambda>u. googleId u = wh) (rows s) = Some old"
      "u = apply_update upd old"
      "s' = \<lparr>rows = replace_row u (rows s), seq = next_id s\<rparr>"
      "\<not> googleId_taken (rows s) (user_id old) (googleId u)"
      "\<not> email_taken (rows s) (user_id old) (email u)"
proof (cases "find (\<lambda>u. googleId u = wh) (rows s)")
  case None
  from assms have "u = create_row cre (next_id s) t \<and>
      s' = \<lparr>rows = rows s @ [u], seq = user_id u\<rparr> \<and>
      \<not> googleId_taken (rows s) (user_id u) (googleId u) \<and>
      \<not> email_taken (rows s) (user_id u) (email u)"
    unfolding upsert_def None Let_def by (auto split: if_splits)
  with None created show ?thesis by blast
next
  case (Some old)
  from assms have "u = apply_update upd old \<and>
      s' = \<lparr>rows = replace_row u (rows s), seq = next_id s\<rparr> \<and>
      \<not> googleId_taken (rows s) (user_id old) (googleId u) \<and>
      \<not> email_taken (rows s) (user_id old) (email u)"
    unfolding upsert_def Some Let_def by (auto split: if_splits)
  with Some updated show ?thesis by blast
qed

lemma distinct_map_filter_eq:
  "distinct (map f xs) \<Longrightarrow> x \<in> set xs \<Longrightarrow> filter (\<lambda>u. f u = f x) xs = [x]"
proof (induction xs)
  case Nil then show ?case by simp
next
  case (Cons y ys)
  show ?case
  proof (cases "x = y")
    case True
    have "filter (\<lambda>u. f u = f y) ys = []"
      using Cons.prems(1) by (auto simp: filter_empty_conv image_iff)
    with True show ?thesis by simp
  next
    case False
    then have "x \<in> set ys" using Cons.prems(2) by simp
    moreover have "f y \<noteq> f x" using Cons.prems(1) \<open>x \<in> set ys\<close> by (auto simp: image_iff)
    ultimately show ?thesis using Cons by simp
  qed
qed

lemma distinct_map_find_eq:
  "distinct (map f xs) \<Longrightarrow> x \<in> set xs \<Longrightarrow> find (\<lambda>u. f u = f x) xs = Some x"
proof (induction xs)
  case Nil then show ?case by simp
next
  case (Cons y ys)
  show ?case
  proof (cases "x = y")
    case True then show ?thesis by simp
  next
    case False
    then have "x \<in> set ys" using Cons.prems(2) by simp
    moreover have "f y \<noteq> f x" using Cons.prems(1) \<open>x \<in> set ys\<close> by (auto simp: image_iff)
    ultimately show ?thesis using Cons by simp
  qed
qed

lemma distinct_map_neq:
  "distinct (map f xs) \<Longrightarrow> x \<in> set xs \<Longrightarrow> y \<in> set xs \<Longrightarrow> x \<noteq> y \<Longrightarrow> f x \<noteq> f y"
  by (auto simp: distinct_map inj_on_def)

lemma find_googleId: "find (\<lambda>u. googleId u = wh) rs = Some old \<Longrightarrow> old \<in> set rs \<and> googleId old = wh"
  by (induction rs) (auto split: if_splits)

lemma new_in_replace_row:
  "old \<in> set rs \<Longrightarrow> user_id old = user_id new \<Longrightarrow> new \<in> set (replace_row new rs)"
  by (induction rs) (auto simp: replace_row_def)

lemma kept_in_replace_row:
  "v \<in> set rs \<Longrightarrow> user_id v \<noteq> user_id new \<Longrightarrow> v \<in> set (replace_row new rs)"
  by (induction rs) (auto simp: replace_row_def)

lemma upsert_result_in_rows:
  assumes "upsert s t wh upd cre = Inr (u, s')"
  shows "u \<in> set (rows s')"
  using assms
proof (cases rule: upsert_Inr_cases)
  case created
  then show ?thesis by simp
next
  case (updated old)
  have "old \<in> set (rows s)" using find_googleId[OF updated(1)] by simp
  moreover have "user_id old = user_id u" using updated(2) by (simp add: apply_update_def)
  ultimately have "u \<in> set (replace_row u (rows s))" by (rule new_in_replace_row)
  then show ?thesis using updated(3) by simp
qed

lemma upsert_user_googleId:
  assumes "upsert_user s t d = Inr (u, s')"
  shows "googleId u = googleId d"
  using assms unfolding upsert_user_def
proof (cases rule: upsert_Inr_cases)
  case created
  then show ?thesis by (simp add: create_row_def)
next
  case (updated old)
  have "googleId old = googleId d" using find_googleId[OF updated(1)] by simp
  then show ?thesis using updated(2) by (simp add: apply_update_def)
qed

lemma upsert_user_store_ok: "store_ok s \<Longrightarrow> upsert_user s t d = Inr (u, s') \<Longrightarrow> store_ok s'"
  unfolding upsert_user_def by (rule upsert_store_ok)

lemma upsert_user_result_in_rows: "upsert_user s t d = Inr (u, s') \<Longrightarrow> u \<in> set (rows s')"
  unfolding upsert_user_def by (rule upsert_result_in_rows)

lemma upsert_user_keeps_others:
  assumes "store_ok s" "upsert_user s t d = Inr (u, s')" "v \<in> set (rows s)" "googleId v \<noteq> googleId d"
  shows "v \<in> set (rows s')"
  using assms(2) unfolding upsert_user_def
proof (cases rule: upsert_Inr_cases)
  case created
  then show ?thesis using assms(3) by simp
next
  case (updated old)
  have old: "old \<in> set (rows s)" "googleId old = googleId d"
    using find_googleId[OF updated(1)] by simp_all
  have "v \<noteq> old" using assms(4) old(2) by auto
  then have "user_id v \<noteq> user_id old"
    using assms(1,3) old(1) distinct_map_neq[of user_id "rows s" v old] by (simp add: store_ok_def)
  moreover have "user_id u = user_id old" using updated(2) by (simp add: apply_update_def)
  ultimately have "v \<in> set (replace_row u (rows s))"
    using assms(3) by (intro kept_in_replace_row) simp_all
  then show ?thesis using updated(3) by simp
qed

lemma upsert_user_existing:
  assumes "find (\<lambda>u. googleId u = googleId d) (rows s) = Some old"
    and "upsert_user s t d = Inr (u, s')"
  shows "u = apply_update \<lparr>set_googleId = None, set_email = email d, set_name = name d,
                          set_picture = picture d\<rparr> old"
  using assms(2) unfolding upsert_user_def
proof (cases rule: upsert_Inr_cases)
  case created
  then show ?thesis using assms(1) by simp
next
  case (updated old')
  then show ?thesis using assms(1) by simp
qed

lemmas store_eval = upsert_user_def upsert_def create_row_def apply_update_def next_id_def
  googleId_taken_def email_taken_def replace_row_def empty_store_def Let_def upsert_op_def
  alice_def alice2_def alice_bare_def bob_def alice_row_def alice2_row_def bob_row_def

lemma upsert_alice: "upsert_user empty_store 10 alice = Inr (alice_row, \<lparr>rows = [alice_row], seq = 1\<rparr>)"
  by (simp add: store_eval)

lemma upsert_alice2:
  "upsert_user \<lparr>rows = [alice_row], seq = 1\<rparr> 20 alice2 = Inr (alice2_row, \<lparr>rows = [alice2_row], seq = 2\<rparr>)"
  by (simp add: store_eval)

lemma upsert_alice_bare:
  "upsert_user \<lparr>rows = [alice_row], seq = 1\<rparr> 20 alice_bare = Inr (alice_row, \<lparr>rows = [alice_row], seq = 2\<rparr>)"
  by (simp add: store_eval)

lemma upsert_bob:
  "upsert_user \<lparr>rows = [alice_row], seq = 1\<rparr> 20 bob = Inr (bob_row, \<lparr>rows = [alice_row, bob_row], seq = 2\<rparr>)"
  by (simp add: store_eval)

lemma upsert_all_alice_bob:
  "upsert_all empty_store [upsert_op 10 alice, upsert_op 20 bob] = \<lparr>rows = [alice_row, bob_row], seq = 2\<rparr>"
  by (simp add: store_eval)

text \<open>
  A field that the second payload leaves undefined keeps its stored value: here the
  picture.
\<close>

lemma upsert_user_undefined_keeps:
  assumes "find (\<lambda>u. googleId u = googleId d) (rows s) = Some old"
    and "upsert_user s t d = Inr (u, s')"
  shows "(email d = None \<longrightarrow> email u = email old) \<and> (name d = None \<longrightarrow> name u = name old) \<and>
         (picture d = None \<longrightarrow> picture u = picture old)"
  using upsert_user_existing[OF assms] by (simp add: apply_update_def)

text \<open>
  The upsert of \<^verbatim>\<open>/dev-login\<close>, whose update also carries the \<^verbatim>\<open>googleId\<close> it looks
  up, is the same write.
\<close>

lemma dev_login_upsert_is_upsert_user:
  "upsert s t (googleId d)
     \<lparr>set_googleId = Some (googleId d), set_email = email d, set_name = name d,
      set_picture = picture d\<rparr> d =
   upsert_user s t d"
proof (cases "find (\<lambda>u. googleId u = googleId d) (rows s)")
  case None
  then show ?thesis by (simp add: upsert_user_def upsert_def)
next
  case (Some old)
  have "googleId old = googleId d" using find_googleId[OF Some] by simp
  then have "apply_update \<lparr>set_googleId = Some (googleId d), set_email = email d, set_name = name d,
      set_picture = picture d\<rparr> old =
    apply_update \<lparr>set_googleId = None, set_email = email d, set_name = name d,
      set_picture = picture d\<rparr> old"
    by (simp add: apply_update_def)
  then show ?thesis using Some by (simp add: upsert_user_def upsert_def)
qed

subsection \<open>Upserting one external id twice\<close>

text \<open>
  C2, as stated, fails: the verify callback hands Prisma \<^verbatim>\<open>undefined\<close> for an email or
  a name that the profile lacks (\<^verbatim>\<open>index.js\<close> lines 92 and 93), and Prisma leaves such a
  field as it is. Upserting \<^verbatim>\<open>g-1\<close> with an email and a name and then with neither, both
  upserts succeeding, leaves the first email and name in the row, not the values of the
  second payload.
\<close>

theorem second_payload_undefined_keeps_first:
  "upsert_user empty_store 10 alice = Inr (alice_row, \<lparr>rows = [alice_row], seq = 1\<rparr>) \<and>
   upsert_user \<lparr>rows = [alice_row], seq = 1\<rparr> 20 alice_bare =
     Inr (alice_row, \<lparr>rows = [alice_row], seq = 2\<rparr>) \<and>
   alice_bare \<noteq> alice \<and>
   email alice_row = Some ''alice@example.com'' \<and> email alice_bare = None \<and>
   name alice_row = Some ''Sam'' \<and> name alice_bare = None"
  using upsert_alice upsert_alice_bare by (simp add: alice_def alice_bare_def alice_row_def)

text \<open>
  C2, amended. On a table that meets the schema's constraints, upserting external id
  \<open>k\<close> with one payload and then again with any other, both upserts succeeding, leaves
  exactly one row for \<open>k\<close>: the row the second upsert returns. Its \<^verbatim>\<open>id\<close> and
  \<^verbatim>\<open>createdAt\<close> are those of the first upsert. Its email is the second payload's where
  that payload gives one and the first upsert's where it gives none, and so for its name.
\<close>

theorem upsert_twice_same_key:
  assumes ok: "store_ok s"
    and k1: "googleId p1 = k" and k2: "googleId p2 = k"
    and first: "upsert_user s t1 p1 = Inr (u1, s1)"
    and second: "upsert_user s1 t2 p2 = Inr (u2, s2)"
  shows "filter (\<lambda>u. googleId u = k) (rows s2) = [u2] \<and>
         user_id u2 = user_id u1 \<and> createdAt u2 = createdAt u1 \<and>
         email u2 = (case email p2 of None \<Rightarrow> email u1 | Some e \<Rightarrow> Some e) \<and>
         name u2 = (case name p2 of None \<Rightarrow> name u1 | Some n \<Rightarrow> Some n)"
proof -
  have ok1: "store_ok s1" using ok first by (rule upsert_user_store_ok)
  have ok2: "store_ok s2" using ok1 second by (rule upsert_user_store_ok)
  have u1: "u1 \<in> set (rows s1)" "googleId u1 = k"
    using first k1 by (simp_all add: upsert_user_result_in_rows upsert_user_googleId)
  have u2: "u2 \<in> set (rows s2)" "googleId u2 = k"
    using second k2 by (simp_all add: upsert_user_result_in_rows upsert_user_googleId)
  have "find (\<lambda>u. googleId u = googleId u1) (rows s1) = Some u1"
    using ok1 u1(1) by (intro distinct_map_find_eq) (simp_all add: store_ok_def)
  then have "find (\<lambda>u. googleId u = googleId p2) (rows s1) = Some u1"
    using u1(2) k2 by simp
  from upsert_user_existing[OF this second]
  have upd: "user_id u2 = user_id u1" "createdAt u2 = createdAt u1"
    "email u2 = (case email p2 of None \<Rightarrow> email u1 | Some e \<Rightarrow> Some e)"
    "name u2 = (case name p2 of None \<Rightarrow> name u1 | Some n \<Rightarrow> Some n)"
    by (simp_all add: apply_update_def)
  have "filter (\<lambda>u. googleId u = googleId u2) (rows s2) = [u2]"
    using ok2 u2(1) by (intro distinct_map_filter_eq) (simp_all add: store_ok_def)
  then show ?thesis using upd u2(2) by simp
qed

theorem upsert_twice_same_key_witness:
  "store_ok empty_store \<and>
   upsert_user empty_store 10 alice = Inr (alice_row, \<lparr>rows = [alice_row], seq = 1\<rparr>) \<and>
   upsert_user \<lparr>rows = [alice_row], seq = 1\<rparr> 20 alice2 =
     Inr (alice2_row, \<lparr>rows = [alice2_row], seq = 2\<rparr>) \<and>
   filter (\<lambda>u. googleId u = ''g-1'') (rows \<lparr>rows = [alice2_row], seq = 2\<rparr>) = [alice2_row] \<and>
   user_id alice2_row = user_id alice_row \<and> createdAt alice2_row = createdAt alice_row \<and>
   email alice2_row = Some ''alice@example.org'' \<and> name alice2_row = Some ''Alice''"
proof -
  have k: "googleId alice = ''g-1''" "googleId alice2 = ''g-1''"
    by (simp_all add: alice_def alice2_def)
  have v: "email alice2 = Some ''alice@example.org''" "name alice2 = Some ''Alice''"
    by (simp_all add: alice2_def)
  from upsert_twice_same_key[OF empty_store_ok k(1) k(2) upsert_alice upsert_alice2]
  have "filter (\<lambda>u. googleId u = ''g-1'') (rows \<lparr>rows = [alice2_row], seq = 2\<rparr>) = [alice2_row] \<and>
   user_id alice2_row = user_id alice_row \<and> createdAt alice2_row = createdAt alice_row \<and>
   email alice2_row = Some ''alice@example.org'' \<and> name alice2_row = Some ''Alice''"
    by (simp add: v)
  with upsert_alice upsert_alice2 empty_store_ok show ?thesis by blast
qed

subsection \<open>One row per external id\<close>

text \<open>
  C3. After any run of upserts on the empty table, no two rows share a \<^verbatim>\<open>googleId\<close>.
  In particular, upserting \<open>a\<close> and then \<open>b\<close> with different external ids, both
  succeeding, leaves exactly one row for each, and the two rows differ and have different
  \<^verbatim>\<open>id\<close>.
\<close>

theorem one_row_per_googleId:
  "distinct (map googleId (rows (upsert_all empty_store ops))) \<and>
   (\<forall>a b ta tb ua sa ub sb.
      googleId a \<noteq> googleId b \<and>
      upsert_user (upsert_all empty_store ops) ta a = Inr (ua, sa) \<and>
      upsert_user sa tb b = Inr (ub, sb) \<longrightarrow>
      filter (\<lambda>u. googleId u = googleId a) (rows sb) = [ua] \<and>
      filter (\<lambda>u. googleId u = googleId b) (rows sb) = [ub] \<and>
      ua \<noteq> ub \<and> user_id ua \<noteq> user_id ub)"
proof (intro conjI allI impI)
  have ok: "store_ok (upsert_all empty_store ops)"
    using empty_store_ok by (rule upsert_all_store_ok)
  then show "distinct (map googleId (rows (upsert_all empty_store ops)))"
    by (simp add: store_ok_def)
  fix a b ta tb ua sa ub sb
  assume h: "googleId a \<noteq> googleId b \<and>
      upsert_user (upsert_all empty_store ops) ta a = Inr (ua, sa) \<and>
      upsert_user sa tb b = Inr (ub, sb)"
  then have ne: "googleId a \<noteq> googleId b"
    and fa: "upsert_user (upsert_all empty_store ops) ta a = Inr (ua, sa)"
    and fb: "upsert_user sa tb b = Inr (ub, sb)" by simp_all
  have oka: "store_ok sa" using ok fa by (rule upsert_user_store_ok)
  have okb: "store_ok sb" using oka fb by (rule upsert_user_store_ok)
  have ga: "googleId ua = googleId a" using fa by (rule upsert_user_googleId)
  have gb: "googleId ub = googleId b" using fb by (rule upsert_user_googleId)
  have "ua \<in> set (rows sa)" using fa by (rule upsert_user_result_in_rows)
  then have ina: "ua \<in> set (rows sb)"
    using oka fb ga ne by (intro upsert_user_keeps_others[of sa tb b ub sb ua]) simp_all
  have inb: "ub \<in> set (rows sb)" using fb by (rule upsert_user_result_in_rows)
  have dg: "distinct (map googleId (rows sb))" and di: "distinct (map user_id (rows sb))"
    using okb by (simp_all add: store_ok_def)
  show "filter (\<lambda>u. googleId u = googleId a) (rows sb) = [ua]"
    using distinct_map_filter_eq[OF dg ina] ga by simp
  show "filter (\<lambda>u. googleId u = googleId b) (rows sb) = [ub]"
    using distinct_map_filter_eq[OF dg inb] gb by simp
  show neq: "ua \<noteq> ub" using ga gb ne by auto
  show "user_id ua \<noteq> user_id ub" using di ina inb neq by (rule distinct_map_neq)
qed

theorem one_row_per_googleId_witness:
  "distinct (map googleId (rows (upsert_all empty_store []))) \<and>
   googleId alice \<noteq> googleId bob \<and>
   upsert_user (upsert_all empty_store []) 10 alice = Inr (alice_row, \<lparr>rows = [alice_row], seq = 1\<rparr>) \<and>
   upsert_user \<lparr>rows = [alice_row], seq = 1\<rparr> 20 bob =
     Inr (bob_row, \<lparr>rows = [alice_row, bob_row], seq = 2\<rparr>) \<and>
   filter (\<lambda>u. googleId u = googleId alice) [alice_row, bob_row] = [alice_row] \<and>
   filter (\<lambda>u. googleId u = googleId bob) [alice_row, bob_row] = [bob_row] \<and>
   alice_row \<noteq> bob_row \<and> user_id alice_row \<noteq> user_id bob_row"
proof -
  have ne: "googleId alice \<noteq> googleId bob" by (simp add: alice_def bob_def)
  have a: "upsert_user (upsert_all empty_store []) 10 alice = Inr (alice_row, \<lparr>rows = [alice_row], seq = 1\<rparr>)"
    using upsert_alice by simp
  from one_row_per_googleId[of "[]"] ne a upsert_bob
  have "distinct (map googleId (rows (upsert_all empty_store []))) \<and>
    filter (\<lambda>u. googleId u = googleId alice) (rows \<lparr>rows = [alice_row, bob_row], seq = 2\<rparr>) = [alice_row] \<and>
    filter (\<lambda>u. googleId u = googleId bob) (rows \<lparr>rows = [alice_row, bob_row], seq = 2\<rparr>) = [bob_row] \<and>
    alice_row \<noteq> bob_row \<and> user_id alice_row \<noteq> user_id bob_row"
    by blast
  with ne a upsert_bob show ?thesis by simp
qed

subsection \<open>Which profile columns are unique\<close>

text \<open>
  C8, as stated, fails: \<^verbatim>\<open>migration.sql\<close> has unique indexes on \<^verbatim>\<open>googleId\<close> and
  \<^verbatim>\<open>email\<close> only. Two users with the same name and the same picture are both stored.
\<close>

theorem name_picture_not_unique:
  "column_unique email (rows (upsert_all empty_store [upsert_op 10 alice, upsert_op 20 bob])) \<and>
   \<not> column_unique name (rows (upsert_all empty_store [upsert_op 10 alice, upsert_op 20 bob])) \<and>
   \<not> column_unique picture (rows (upsert_all empty_store [upsert_op 10 alice, upsert_op 20 bob]))"
  by (simp add: upsert_all_alice_bob column_unique_def alice_row_def bob_row_def)

text \<open>
  C8, amended. After any run of upserts on the empty table, \<^verbatim>\<open>email\<close> is
  unique-or-null: no two rows hold the same email other than \<^verbatim>\<open>NULL\<close>. (\<^verbatim>\<open>name\<close> and
  \<^verbatim>\<open>picture\<close> are nullable and carry no uniqueness.)
\<close>

theorem email_unique_or_null:
  "column_unique email (rows (upsert_all empty_store ops))"
  using upsert_all_store_ok[OF empty_store_ok, of ops] by (simp add: store_ok_def)

theorem email_unique_or_null_witness:
  "column_unique email (rows (upsert_all empty_store [upsert_op 10 alice, upsert_op 20 bob])) \<and>
   rows (upsert_all empty_store [upsert_op 10 alice, upsert_op 20 bob]) = [alice_row, bob_row]"
  using email_unique_or_null[of "[upsert_op 10 alice, upsert_op 20 bob]"]
  by (simp add: upsert_all_alice_bob)

section \<open>What the collaborators leave in the trace\<close>

lemma session_save_cases:
  obtains (failed) e where "fault = Some e" "session_save fault c = (c, [SaveRequested], Some e)"
  | (acked) "fault = None"
      "session_save fault c =
         (c\<lparr>sessions := (sessions c)(sessionID c \<mapsto> session c)\<rparr>, [SaveRequested, SaveAcked], None)"
  by (cases fault) (simp_all add: session_save_def)

lemma req_login_cases:
  obtains (regen_failed) c1 e where "req_login env u c = (c1, [], Some e)"
  | (save_failed) c1 e where
      "req_login env u c =
         (c1, [Log SESSION ''Saving user reference into session'', SessionWrite (user_id u),
               SaveRequested], Some e)"
  | (saved) c1 where
      "req_login env u c =
         (c1, [Log SESSION ''Saving user reference into session'', SessionWrite (user_id u),
               SaveRequested, SaveAcked], None)"
      "sessions c1 (sessionID c1) = Some (Some (user_id u))" "session c1 = Some (user_id u)"
      "user c1 = Some u" "db c1 = db c"
proof (cases "regen_fault env")
  case (Some e)
  then have "req_login env u c = (c\<lparr>user := None, sessionID := sid_regen env, session := None\<rparr>, [], Some e)"
    by (simp add: req_login_def session_regenerate_def)
  then show ?thesis by (rule regen_failed)
next
  case None
  show ?thesis
  proof (cases "login_save_fault env")
    case (Some e)
    with None have "req_login env u c =
         (c\<lparr>user := None, sessionID := sid_regen env, session := Some (user_id u),
            sessions := (sessions c)(sessionID c := None)\<rparr>,
          [Log SESSION ''Saving user reference into session'', SessionWrite (user_id u),
               SaveRequested], Some e)"
      by (simp add: req_login_def session_regenerate_def serializeUser_def session_save_def)
    then show ?thesis by (rule save_failed)
  next
    case None2: None
    let ?c1 = "c\<lparr>user := Some u, sessionID := sid_regen env, session := Some (user_id u),
                 sessions := (sessions c)(sessionID c := None, sid_regen env \<mapsto> Some (user_id u))\<rparr>"
    have "req_login env u c =
         (?c1, [Log SESSION ''Saving user reference into session'', SessionWrite (user_id u),
               SaveRequested, SaveAcked], None)"
      using None None2
      by (simp add: req_login_def session_regenerate_def serializeUser_def session_save_def)
    then show ?thesis by (rule saved) simp_all
  qed
qed

lemma verify_cases:
  obtains (stored) u s' ev where "verify env p s = (Inr u, s', ev)" "list_all is_log ev"
  | (rejected) e ev where "verify env p s = (Inl e, s, ev)" "list_all is_log ev"
proof (cases "prisma_call (store_fault env) (upsert_user s (now env) (map_profile p))")
  case (Inl e)
  let ?ev = "[Log AUTH ''Received profile from Google'',
              Log AUTH ''Mapped Google profile to local user data'',
              Log ERROR ''Failed to store user in database'']"
  have "verify env p s = (Inl e, s, ?ev)" using Inl by (simp add: verify_def)
  moreover have "list_all is_log ?ev" by simp
  ultimately show ?thesis by (rule rejected)
next
  case (Inr r)
  obtain u s' where r: "r = (u, s')" by (cases r)
  let ?ev = "[Log AUTH ''Received profile from Google'',
              Log AUTH ''Mapped Google profile to local user data'',
              Log AUTH ''User stored in database (Prisma upsert)'']"
  have "verify env p s = (Inr u, s', ?ev)" using Inr r by (simp add: verify_def)
  moreover have "list_all is_log ?ev" by simp
  ultimately show ?thesis by (rule stored)
qed

lemma logs_prefix:
  "list_all is_log ev \<Longrightarrow>
   write_acked_before_redirect p (ev @ tr) = write_acked_before_redirect p tr"
proof (induction ev)
  case Nil then show ?case by simp
next
  case (Cons e ev)
  then show ?case by (cases e) simp_all
qed

lemma passport_authenticate_cases:
  obtains (failed) "passport_authenticate env c = (c, [Redirect ''/login''], Responded)"
      "handshake env = HandshakeFail"
  | (error) c1 ev e where "passport_authenticate env c = (c1, ev, NextErr e)"
      "write_acked_before_redirect NoWrite ev" "\<not> list_ex (\<lambda>e. e = Redirect ''/dashboard'') ev"
  | (logged_in) c1 ev u where "passport_authenticate env c = (c1, ev, Next)"
      "\<forall>tr. write_acked_before_redirect NoWrite (ev @ tr) = write_acked_before_redirect Acked tr"
      "sessions c1 (sessionID c1) = Some (Some (user_id u))" "session c1 = Some (user_id u)"
      "user c1 = Some u" "\<not> list_ex (\<lambda>e. e = Redirect ''/dashboard'') ev"
proof (cases "handshake env")
  case HandshakeFail
  then have "passport_authenticate env c = (c, [Redirect ''/login''], Responded)"
    by (simp add: passport_authenticate_def)
  then show ?thesis using HandshakeFail by (rule failed)
next
  case (HandshakeError e)
  then have "passport_authenticate env c = (c, [], NextErr e)"
    by (simp add: passport_authenticate_def)
  then show ?thesis by (rule error) simp_all
next
  case (HandshakeProfile p)
  show ?thesis
  proof (cases rule: verify_cases[of env p "db c"])
    case (rejected e ev)
    have "passport_authenticate env c = (c\<lparr>db := db c\<rparr>, ev, NextErr e)"
      using HandshakeProfile rejected(1) by (simp add: passport_authenticate_def)
    moreover have "write_acked_before_redirect NoWrite ev"
      using logs_prefix[OF rejected(2), of NoWrite "[]"] by simp
    moreover have "\<not> list_ex (\<lambda>e. e = Redirect ''/dashboard'') ev"
      using rejected(2) by (auto simp: list_ex_iff list_all_iff)
    ultimately show ?thesis by (rule error)
  next
    case (stored u s' ev)
    show ?thesis
    proof (cases rule: req_login_cases[of env u "c\<lparr>db := s'\<rparr>"])
      case (regen_failed c1 e)
      have "passport_authenticate env c = (c1, ev @ [], NextErr e)"
        using HandshakeProfile stored(1) regen_failed by (simp add: passport_authenticate_def)
      moreover have "write_acked_before_redirect NoWrite (ev @ [])"
        using logs_prefix[OF stored(2), of NoWrite "[]"] by simp
      moreover have "\<not> list_ex (\<lambda>e. e = Redirect ''/dashboard'') (ev @ [])"
        using stored(2) by (auto simp: list_ex_iff list_all_iff)
      ultimately show ?thesis by (rule error)
    next
      case (save_failed c1 e)
      let ?ev1 = "[Log SESSION ''Saving user reference into session'', SessionWrite (user_id u), SaveRequested]"
      have "passport_authenticate env c = (c1, ev @ ?ev1, NextErr e)"
        using HandshakeProfile stored(1) save_failed by (simp add: passport_authenticate_def)
      moreover have "write_acked_before_redirect NoWrite (ev @ ?ev1)"
        using logs_prefix[OF stored(2), of NoWrite ?ev1] by simp
      moreover have "\<not> list_ex (\<lambda>e. e = Redirect ''/dashboard'') (ev @ ?ev1)"
        using stored(2) by (auto simp: list_ex_iff list_all_iff)
      ultimately show ?thesis by (rule error)
    next
      case (saved c1)
      let ?ev1 = "[Log SESSION ''Saving user reference into session'', SessionWrite (user_id u),
                   SaveRequested, SaveAcked]"
      have "passport_authenticate env c = (c1, ev @ ?ev1, Next)"
        using HandshakeProfile stored(1) saved(1) by (simp add: passport_authenticate_def)
      moreover have "\<forall>tr. write_acked_before_redirect NoWrite ((ev @ ?ev1) @ tr) =
          write_acked_before_redirect Acked tr"
        using logs_prefix[OF stored(2), of NoWrite] by simp
      moreover have "\<not> list_ex (\<lambda>e. e = Redirect ''/dashboard'') (ev @ ?ev1)"
        using stored(2) by (auto simp: list_ex_iff list_all_iff)
      ultimately show ?thesis using saved(2,3,4) by (intro logged_in[of c1 "ev @ ?ev1" u]) simp_all
    qed
  qed
qed

section \<open>Login completion\<close>

lemma auth_google_callback_cases:
  obtains (cb_failed) "handshake env = HandshakeFail"
      "auth_google_callback env c =
         (c, [Log ROUTE ''User returned from Google, handling callback'', Redirect ''/login''], Responded)"
  | (cb_error) c1 tr e where "auth_google_callback env c = (c1, tr, NextErr e)"
      "write_acked_before_redirect NoWrite tr" "\<not> list_ex (\<lambda>e. e = Redirect ''/dashboard'') tr"
  | (cb_redirected) c1 tr where "auth_google_callback env c = (c1, tr, Responded)"
      "write_acked_before_redirect NoWrite tr" "principal_stored c1"
proof (cases rule: passport_authenticate_cases[of env c])
  case failed
  then have "auth_google_callback env c =
      (c, [Log ROUTE ''User returned from Google, handling callback'', Redirect ''/login''], Responded)"
    by (simp add: auth_google_callback_def)
  with failed(2) show ?thesis by (rule cb_failed)
next
  case (error c1 ev e)
  let ?tr = "[Log ROUTE ''User returned from Google, handling callback''] @ ev"
  have "auth_google_callback env c = (c1, ?tr, NextErr e)"
    using error(1) by (simp add: auth_google_callback_def)
  moreover have "write_acked_before_redirect NoWrite ?tr" using error(2) by simp
  moreover have "\<not> list_ex (\<lambda>e. e = Redirect ''/dashboard'') ?tr" using error(3) by simp
  ultimately show ?thesis by (rule cb_error)
next
  case (logged_in c1 ev u)
  show ?thesis
  proof (cases rule: session_save_cases[of "save_fault env" c1])
    case (failed e)
    let ?rest = "[Log AUTH ''Google login succeeded, preparing to open session'', SaveRequested,
                  Log ERROR ''Failed to persist session after Google login'']"
    let ?tr = "[Log ROUTE ''User returned from Google, handling callback''] @ ev @ ?rest"
    have "auth_google_callback env c = (c1, ?tr, NextErr e)"
      using logged_in(1) failed(2) by (simp add: auth_google_callback_def)
    moreover have "write_acked_before_redirect NoWrite ?tr" using logged_in(2) by simp
    moreover have "\<not> list_ex (\<lambda>e. e = Redirect ''/dashboard'') ?tr"
      using logged_in(6) by simp
    ultimately show ?thesis by (rule cb_error)
  next
    case acked
    let ?c2 = "c1\<lparr>sessions := (sessions c1)(sessionID c1 \<mapsto> session c1)\<rparr>"
    let ?rest = "[Log AUTH ''Google login succeeded, preparing to open session'', SaveRequested,
                  SaveAcked, Log AUTH ''Session saved, redirecting user to dashboard'',
                  Redirect ''/dashboard'']"
    let ?tr = "[Log ROUTE ''User returned from Google, handling callback''] @ ev @ ?rest"
    have "auth_google_callback env c = (?c2, ?tr, Responded)"
      using logged_in(1) acked(2) by (simp add: auth_google_callback_def)
    moreover have "write_acked_before_redirect NoWrite ?tr" using logged_in(2) by simp
    moreover have "principal_stored ?c2" using logged_in(4) by (simp add: principal_stored_def)
    ultimately show ?thesis by (rule cb_redirected)
  qed
qed


text \<open>
  On the callback route the redirect to \<^verbatim>\<open>/dashboard\<close> comes right after the
  acknowledgement of the handler's own \<^verbatim>\<open>req.session.save\<close>.
\<close>

lemma passport_authenticate_responded:
  "passport_authenticate env c = (c1, ev, Responded) \<Longrightarrow> handshake env = HandshakeFail"
  by (cases rule: passport_authenticate_cases[of env c]) simp_all

lemma callback_redirect_follows_own_save:
  assumes "auth_google_callback env c = (c2, tr, Responded)" "handshake env \<noteq> HandshakeFail"
  shows "\<exists>pre. tr = pre @ [SaveRequested, SaveAcked,
                           Log AUTH ''Session saved, redirecting user to dashboard'',
                           Redirect ''/dashboard'']"
proof -
  obtain c1 ev1 fl where p: "passport_authenticate env c = (c1, ev1, fl)"
    by (cases "passport_authenticate env c")
  show ?thesis
  proof (cases fl)
    case Next
    show ?thesis
    proof (cases rule: session_save_cases[of "save_fault env" c1])
      case (failed e)
      with assms(1) p Next show ?thesis by (simp add: auth_google_callback_def)
    next
      case acked
      with assms(1) p Next have "tr = ([Log ROUTE ''User returned from Google, handling callback''] @ ev1 @
          [Log AUTH ''Google login succeeded, preparing to open session'']) @
          [SaveRequested, SaveAcked, Log AUTH ''Session saved, redirecting user to dashboard'',
           Redirect ''/dashboard'']"
        by (simp add: auth_google_callback_def)
      then show ?thesis by blast
    qed
  next
    case (NextErr e)
    with assms(1) p show ?thesis by (simp add: auth_google_callback_def)
  next
    case Responded
    with p assms(2) passport_authenticate_responded show ?thesis by blast
  qed
qed

lemma dev_login_cases:
  obtains (dl_error) c1 tr e where "dev_login env c = (c1, tr, NextErr e)"
      "write_acked_before_redirect NoWrite tr" "\<not> list_ex (\<lambda>e. e = Redirect ''/dashboard'') tr"
  | (dl_redirected) c1 tr where "dev_login env c = (c1, tr, Responded)"
      "write_acked_before_redirect NoWrite tr" "principal_stored c1"
proof (cases "prisma_call (store_fault env)
             (upsert (db c) (now env) (googleId testUser)
                \<lparr>set_googleId = Some (googleId testUser), set_email = email testUser,
                 set_name = name testUser, set_picture = picture testUser\<rparr>
                testUser)")
  case (Inl e)
  let ?tr = "[Log ROUTE ''Dev login endpoint called (/dev-login)'', Log ERROR ''Error during dev login'']"
  have "dev_login env c = (c, ?tr, NextErr e)" using Inl by (simp add: dev_login_def)
  then show ?thesis by (rule dl_error) simp_all
next
  case (Inr r)
  obtain u s' where r: "r = (u, s')" by (cases r)
  show ?thesis
  proof (cases rule: req_login_cases[of env u "c\<lparr>db := s'\<rparr>"])
    case (regen_failed c1 e)
    have "dev_login env c = (c1, [Log ROUTE ''Dev login endpoint called (/dev-login)''] @ [], NextErr e)"
      using Inr r regen_failed by (simp add: dev_login_def)
    then show ?thesis by (rule dl_error) simp_all
  next
    case (save_failed c1 e)
    let ?tr = "[Log ROUTE ''Dev login endpoint called (/dev-login)''] @
               [Log SESSION ''Saving user reference into session'', SessionWrite (user_id u),
                SaveRequested]"
    have "dev_login env c = (c1, ?tr, NextErr e)"
      using Inr r save_failed by (simp add: dev_login_def)
    then show ?thesis by (rule dl_error) simp_all
  next
    case (saved c1)
    let ?tr = "[Log ROUTE ''Dev login endpoint called (/dev-login)''] @
               [Log SESSION ''Saving user reference into session'', SessionWrite (user_id u),
                SaveRequested, SaveAcked] @
               [Log AUTH ''Dev user logged in successfully'', Redirect ''/dashboard'']"
    have "dev_login env c = (c1, ?tr, Responded)"
      using Inr r saved(1) by (simp add: dev_login_def)
    moreover have "write_acked_before_redirect NoWrite ?tr" by simp
    moreover have "principal_stored c1" using saved(2,3) by (simp add: principal_stored_def)
    ultimately show ?thesis by (rule dl_redirected)
  qed
qed

lemmas web_eval = dev_login_def auth_google_callback_def passport_authenticate_def verify_def
  map_profile_def first_value_def req_login_def session_regenerate_def session_save_def
  serializeUser_def prisma_call_def testUser_def calm_def fresh_ctx_def sample_profile_def
  trace_def principal_stored_def

text \<open>
  C1. On both login completions, the provider callback and \<^verbatim>\<open>/dev-login\<close>, whatever the
  collaborators answer: every redirect to \<^verbatim>\<open>/dashboard\<close> in the trace comes after the write
  of the principal reference and after the session store's acknowledgement of it, and
  when the redirect is sent the store holds the principal reference of the request's
  session. On the callback route the handler's own \<^verbatim>\<open>req.session.save\<close> stands before
  the redirect; on \<^verbatim>\<open>/dev-login\<close> the acknowledgement is the one inside \<^verbatim>\<open>req.login\<close>.
\<close>

theorem session_acknowledged_before_redirect:
  "write_acked_before_redirect NoWrite (trace (auth_google_callback env c)) \<and>
   write_acked_before_redirect NoWrite (trace (dev_login env c)) \<and>
   (list_ex (\<lambda>e. e = Redirect ''/dashboard'') (trace (auth_google_callback env c)) \<longrightarrow>
      principal_stored (fst (auth_google_callback env c))) \<and>
   (list_ex (\<lambda>e. e = Redirect ''/dashboard'') (trace (dev_login env c)) \<longrightarrow>
      principal_stored (fst (dev_login env c)))"
proof -
  have cb: "write_acked_before_redirect NoWrite (trace (auth_google_callback env c)) \<and>
      (list_ex (\<lambda>e. e = Redirect ''/dashboard'') (trace (auth_google_callback env c)) \<longrightarrow>
       principal_stored (fst (auth_google_callback env c)))"
  proof (cases rule: auth_google_callback_cases[of env c])
    case cb_failed
    then show ?thesis by (simp add: trace_def)
  next
    case (cb_error c1 tr e)
    then show ?thesis by (simp add: trace_def)
  next
    case (cb_redirected c1 tr)
    then show ?thesis by (simp add: trace_def)
  qed
  have dl: "write_acked_before_redirect NoWrite (trace (dev_login env c)) \<and>
      (list_ex (\<lambda>e. e = Redirect ''/dashboard'') (trace (dev_login env c)) \<longrightarrow>
       principal_stored (fst (dev_login env c)))"
  proof (cases rule: dev_login_cases[of env c])
    case (dl_error c1 tr e)
    then show ?thesis by (simp add: trace_def)
  next
    case (dl_redirected c1 tr)
    then show ?thesis by (simp add: trace_def)
  qed
  from cb dl show ?thesis by simp
qed

lemma dev_login_calm:
  "dev_login calm fresh_ctx =
     (\<lparr>db = \<lparr>rows = [create_row testUser 1 10], seq = 1\<rparr>,
       sessions = [2 \<mapsto> Some 1], sessionID = 2, session = Some 1,
       user = Some (create_row testUser 1 10)\<rparr>,
      [Log ROUTE ''Dev login endpoint called (/dev-login)'',
       Log SESSION ''Saving user reference into session'', SessionWrite 1,
       SaveRequested, SaveAcked,
       Log AUTH ''Dev user logged in successfully'', Redirect ''/dashboard''],
      Responded)"
  by (simp add: web_eval store_eval)

lemma auth_google_callback_calm:
  "auth_google_callback calm fresh_ctx =
     (\<lparr>db = \<lparr>rows = [alice_row], seq = 1\<rparr>,
       sessions = [2 \<mapsto> Some 1], sessionID = 2, session = Some 1, user = Some alice_row\<rparr>,
      [Log ROUTE ''User returned from Google, handling callback'',
       Log AUTH ''Received profile from Google'',
       Log AUTH ''Mapped Google profile to local user data'',
       Log AUTH ''User stored in database (Prisma upsert)'',
       Log SESSION ''Saving user reference into session'', SessionWrite 1,
       SaveRequested, SaveAcked,
       Log AUTH ''Google login succeeded, preparing to open session'',
       SaveRequested, SaveAcked,
       Log AUTH ''Session saved, redirecting user to dashboard'', Redirect ''/dashboard''],
      Responded)"
  by (simp add: web_eval store_eval)

theorem session_acknowledged_before_redirect_witness:
  "list_ex (\<lambda>e. e = Redirect ''/dashboard'') (trace (auth_google_callback calm fresh_ctx)) \<and>
   list_ex (\<lambda>e. e = Redirect ''/dashboard'') (trace (dev_login calm fresh_ctx)) \<and>
   write_acked_before_redirect NoWrite (trace (auth_google_callback calm fresh_ctx)) \<and>
   write_acked_before_redirect NoWrite (trace (dev_login calm fresh_ctx)) \<and>
   principal_stored (fst (auth_google_callback calm fresh_ctx)) \<and>
   principal_stored (fst (dev_login calm fresh_ctx))"
proof -
  have a: "list_ex (\<lambda>e. e = Redirect ''/dashboard'') (trace (auth_google_callback calm fresh_ctx))"
    by (simp add: auth_google_callback_calm trace_def)
  have b: "list_ex (\<lambda>e. e = Redirect ''/dashboard'') (trace (dev_login calm fresh_ctx))"
    by (simp add: dev_login_calm trace_def)
  from session_acknowledged_before_redirect[of calm fresh_ctx] a b show ?thesis by blast
qed

text \<open>
  The strategy's two ways of not logging in, on the callback route: a failure is answered
  by \<^verbatim>\<open>failureRedirect\<close>, an error is passed on to the error handler. Neither touches the
  request state.
\<close>

lemma auth_google_callback_fail:
  "handshake env = HandshakeFail \<Longrightarrow>
   auth_google_callback env c =
     (c, [Log ROUTE ''User returned from Google, handling callback'', Redirect ''/login''],
      Responded)"
  by (simp add: auth_google_callback_def passport_authenticate_def)

lemma auth_google_callback_error:
  "handshake env = HandshakeError e \<Longrightarrow>
   auth_google_callback env c =
     (c, [Log ROUTE ''User returned from Google, handling callback''], NextErr e)"
  by (simp add: auth_google_callback_def passport_authenticate_def)

text \<open>
  C6, as stated, fails: only the strategy's failure outcome (the user cancels or denies
  access) is redirected to \<^verbatim>\<open>/login\<close>. A rejection by the provider that the strategy
  reports as an error, here \<^verbatim>\<open>temporarily_unavailable\<close> with status 503, reaches the error
  handler and is answered with the error page.
\<close>

theorem provider_rejection_shows_error_page:
  "handshake (calm\<lparr>handshake := HandshakeError unavailable\<rparr>) = HandshakeError unavailable \<and>
   responses (snd (app production_config (calm\<lparr>handshake := HandshakeError unavailable\<rparr>)
                     fresh_ctx (browser_get ''/auth/google/callback'' None))) =
     [ErrorPage 503 ''The authorization server is unavailable'']"
  by (simp add: app_def session_middleware_def passport_session_def dispatch_def routes_def
      response_end_def session_changed_def browser_get_def responses_def error_handler_def
      resolve_status_def unavailable_def auth_google_callback_error calm_def fresh_ctx_def)

text \<open>
  C6, amended. When the handshake ends in the strategy's failure outcome (the user
  cancels or denies access), the callback route answers with the redirect to \<^verbatim>\<open>/login\<close>
  and nothing else: the database, the session store, the request's session and
  \<^verbatim>\<open>req.user\<close> are as before, the error handler is not reached and no error is logged or
  shown. When it ends in an error of the strategy (any other rejection by the provider),
  the request state is as before too, no session is established, and the fault goes to
  the error handler, whose response is what the client gets.
\<close>

theorem handshake_failure_redirects_to_login:
  "(handshake env = HandshakeFail \<longrightarrow>
      auth_google_callback env c =
        (c, [Log ROUTE ''User returned from Google, handling callback'', Redirect ''/login''],
         Responded) \<and>
      responses (trace (auth_google_callback env c)) = [Redirect ''/login''] \<and>
      \<not> list_ex is_error_event (trace (auth_google_callback env c))) \<and>
   (\<forall>e. handshake env = HandshakeError e \<longrightarrow>
      auth_google_callback env c =
        (c, [Log ROUTE ''User returned from Google, handling callback''], NextErr e) \<and>
      handler AuthGoogleCallback env c =
        (c, [Log ROUTE ''User returned from Google, handling callback''], NextErr e) \<and>
      responses (trace (auth_google_callback env c) @ error_handler rq e) =
        responses (error_handler rq e))"
  by (simp add: auth_google_callback_fail auth_google_callback_error trace_def responses_def)

theorem handshake_failure_redirects_to_login_witness:
  "handshake (calm\<lparr>handshake := HandshakeFail\<rparr>) = HandshakeFail \<and>
   auth_google_callback (calm\<lparr>handshake := HandshakeFail\<rparr>) fresh_ctx =
     (fresh_ctx, [Log ROUTE ''User returned from Google, handling callback'', Redirect ''/login''],
      Responded) \<and>
   responses (trace (auth_google_callback (calm\<lparr>handshake := HandshakeFail\<rparr>) fresh_ctx)) =
     [Redirect ''/login''] \<and>
   handshake (calm\<lparr>handshake := HandshakeError unavailable\<rparr>) = HandshakeError unavailable \<and>
   auth_google_callback (calm\<lparr>handshake := HandshakeError unavailable\<rparr>) fresh_ctx =
     (fresh_ctx, [Log ROUTE ''User returned from Google, handling callback''], NextErr unavailable)"
proof -
  have h: "handshake (calm\<lparr>handshake := HandshakeFail\<rparr>) = HandshakeFail" by simp
  have g: "handshake (calm\<lparr>handshake := HandshakeError unavailable\<rparr>) = HandshakeError unavailable"
    by simp
  from handshake_failure_redirects_to_login[of "calm\<lparr>handshake := HandshakeFail\<rparr>" fresh_ctx] h
    handshake_failure_redirects_to_login[of "calm\<lparr>handshake := HandshakeError unavailable\<rparr>" fresh_ctx] g
  show ?thesis by blast
qed

section \<open>Resolution of the session and the guard\<close>

lemma passport_session_cases:
  obtains (no_principal) "session c = None" "passport_session env c = (c, [], Next)"
  | (lookup_failed) i e where "session c = Some i" "lookup_fault env = Some e"
      "passport_session env c =
         (c, [Log SESSION ''Loading user from session'',
              Log ERROR ''Error loading user from database during deserializeUser''], NextErr e)"
  | (dangling) i where "session c = Some i" "lookup_fault env = None" "findUnique (db c) i = None"
      "passport_session env c = (c\<lparr>session := None\<rparr>, [Log SESSION ''Loading user from session''], Next)"
  | (resolved) i u where "session c = Some i" "lookup_fault env = None" "findUnique (db c) i = Some u"
      "passport_session env c = (c\<lparr>user := Some u\<rparr>, [Log SESSION ''Loading user from session''], Next)"
proof (cases "session c")
  case None
  then show ?thesis by (intro no_principal) (simp_all add: passport_session_def)
next
  case (Some i)
  show ?thesis
  proof (cases "lookup_fault env")
    case fault: (Some e)
    with Some show ?thesis
      by (intro lookup_failed[of i e])
         (simp_all add: passport_session_def deserializeUser_def prisma_call_def)
  next
    case None
    show ?thesis
    proof (cases "findUnique (db c) i")
      case miss: None
      with Some None show ?thesis
        by (intro dangling[of i]) (simp_all add: passport_session_def deserializeUser_def prisma_call_def)
    next
      case hit: (Some u)
      with Some None show ?thesis
        by (intro resolved[of i u]) (simp_all add: passport_session_def deserializeUser_def prisma_call_def)
    qed
  qed
qed

lemma user_session_middleware: "user (session_middleware env rq c) = None"
  by (simp add: session_middleware_def split: option.splits)

lemma db_session_middleware: "db (session_middleware env rq c) = db c"
  by (simp add: session_middleware_def split: option.splits)

lemma resolve_anonymous_iff:
  "resolve env c rq = Inr None \<longleftrightarrow>
     (case session_cookie rq of
        None \<Rightarrow> True
      | Some sid \<Rightarrow>
          (case sessions c sid of
             None \<Rightarrow> True
           | Some None \<Rightarrow> True
           | Some (Some i) \<Rightarrow> lookup_fault env = None \<and> findUnique (db c) i = None))"
proof -
  let ?c = "session_middleware env rq c"
  show ?thesis
  proof (cases rule: passport_session_cases[of ?c env])
    case no_principal
    then show ?thesis
      by (auto simp: resolve_def user_session_middleware session_middleware_def split: option.splits)
  next
    case (lookup_failed i e)
    then show ?thesis
      by (auto simp: resolve_def session_middleware_def split: option.splits)
  next
    case (dangling i)
    then show ?thesis
      by (auto simp: resolve_def user_session_middleware db_session_middleware session_middleware_def
          split: option.splits)
  next
    case (resolved i u)
    then show ?thesis
      by (auto simp: resolve_def db_session_middleware session_middleware_def split: option.splits)
  qed
qed

lemma responses_append: "responses (xs @ ys) = responses xs @ responses ys"
  by (simp add: responses_def)

lemma responses_save: "responses (fst (snd (session_save fault c))) = []"
  by (cases fault) (simp_all add: session_save_def responses_def)

lemma errors_save: "\<not> list_ex is_error_event (fst (snd (session_save fault c)))"
  by (cases fault) (simp_all add: session_save_def)

lemma response_end_responses: "responses (snd (response_end env (c, tr))) = responses tr"
proof (cases "session_changed c")
  case True
  obtain c1 ev x where s: "session_save (end_fault env) c = (c1, ev, x)" by (cases "session_save (end_fault env) c")
  with responses_save[of "end_fault env" c] have "responses ev = []" by simp
  with True s show ?thesis by (simp add: response_end_def responses_append)
next
  case False
  then show ?thesis by (simp add: response_end_def)
qed

lemma response_end_errors:
  "list_ex is_error_event (snd (response_end env (c, tr))) = list_ex is_error_event tr"
proof (cases "session_changed c")
  case True
  obtain c1 ev x where s: "session_save (end_fault env) c = (c1, ev, x)" by (cases "session_save (end_fault env) c")
  with errors_save[of "end_fault env" c] have "\<not> list_ex is_error_event ev" by simp
  with True s show ?thesis by (simp add: response_end_def)
next
  case False
  then show ?thesis by (simp add: response_end_def)
qed

lemma response_end_db: "db (fst (response_end env (c, tr))) = db c"
  by (simp add: response_end_def session_save_def split: option.splits)

lemma dispatch_dashboard:
  "http_method rq = GET \<Longrightarrow> path rq = ''/dashboard'' \<Longrightarrow> dispatch cfg rq = Some Dashboard"
  by (simp add: dispatch_def routes_def)

lemma ensureAuthenticated_anonymous:
  "user c = None \<Longrightarrow>
   ensureAuthenticated c =
     (c, [Log AUTH ''Checking if user can access protected route'',
          Log WARN ''Access denied, redirecting user to /login'', Redirect ''/login''], Responded)"
  by (simp add: ensureAuthenticated_def isAuthenticated_def)

lemma app_dashboard_anonymous:
  assumes "dispatch cfg rq = Some Dashboard"
    and "passport_session env (session_middleware env rq c) = (c1, ev1, Next)"
    and "user c1 = None"
  shows "app cfg env c rq =
           response_end env
             (c1, [Log SESSION ''New HTTP request''] @ ev1 @
                  [Log AUTH ''Checking if user can access protected route'',
                   Log WARN ''Access denied, redirecting user to /login'', Redirect ''/login''])"
  using assms
  by (simp add: app_def dashboard_def ensureAuthenticated_anonymous)

lemma resolve_anonymous_run:
  assumes "resolve env c rq = Inr None"
  obtains c1 ev1 where "passport_session env (session_middleware env rq c) = (c1, ev1, Next)"
    "user c1 = None" "db c1 = db c" "list_all is_log ev1" "\<not> list_ex is_error_event ev1"
proof (cases rule: passport_session_cases[of "session_middleware env rq c" env])
  case no_principal
  show ?thesis
    by (rule that[OF no_principal(2)]) (simp_all add: user_session_middleware db_session_middleware)
next
  case (lookup_failed i e)
  with assms show ?thesis by (simp add: resolve_def)
next
  case (dangling i)
  show ?thesis
    by (rule that[OF dangling(4)]) (simp_all add: user_session_middleware db_session_middleware)
next
  case (resolved i u)
  with assms show ?thesis by (simp add: resolve_def)
qed

lemma dashboard_anonymous_response:
  assumes "dispatch cfg rq = Some Dashboard" "resolve env c rq = Inr None"
  shows "responses (snd (app cfg env c rq)) = [Redirect ''/login''] \<and>
         \<not> list_ex is_error_event (snd (app cfg env c rq)) \<and>
         db (fst (app cfg env c rq)) = db c"
proof -
  from assms(2) obtain c1 ev1 where r:
    "passport_session env (session_middleware env rq c) = (c1, ev1, Next)"
    "user c1 = None" "db c1 = db c" "list_all is_log ev1" "\<not> list_ex is_error_event ev1"
    by (rule resolve_anonymous_run)
  have l: "responses ev1 = []"
    using r(4) by (induction ev1) (auto simp: responses_def elim: is_log.elims)
  note a = app_dashboard_anonymous[OF assms(1) r(1,2)]
  show ?thesis
    using r(3,5) l
    by (simp add: a response_end_responses response_end_errors response_end_db responses_append)
       (simp add: responses_def)
qed

text \<open>
  C4. A request routed to \<^verbatim>\<open>/dashboard\<close> whose session resolves to no user (no cookie, a cookie the
  store does not know, a session without a principal reference, or a reference that no
  row answers to) is answered with the redirect to \<^verbatim>\<open>/login\<close>, status 302 and not 200,
  and leaves the database as it was. The guard itself returns the request state
  unchanged and sends nothing but that redirect.
\<close>

theorem dashboard_requires_authentication:
  assumes "dispatch cfg rq = Some Dashboard" "resolve env c rq = Inr None"
  shows "responses (snd (app cfg env c rq)) = [Redirect ''/login''] \<and>
         map status_code (responses (snd (app cfg env c rq))) = [Some 302] \<and>
         db (fst (app cfg env c rq)) = db c \<and>
         (\<forall>c1. user c1 = None \<longrightarrow>
            fst (ensureAuthenticated c1) = c1 \<and>
            responses (trace (ensureAuthenticated c1)) = [Redirect ''/login''])"
proof -
  have "\<forall>c1. user c1 = None \<longrightarrow>
      fst (ensureAuthenticated c1) = c1 \<and>
      responses (trace (ensureAuthenticated c1)) = [Redirect ''/login'']"
    by (simp add: ensureAuthenticated_anonymous trace_def responses_def)
  with dashboard_anonymous_response[OF assms] show ?thesis by simp
qed

theorem dashboard_requires_authentication_witness:
  "dispatch production_config (browser_get ''/dashboard'' None) = Some Dashboard \<and>
   resolve calm fresh_ctx (browser_get ''/dashboard'' None) = Inr None \<and>
   responses (snd (app production_config calm fresh_ctx (browser_get ''/dashboard'' None))) =
     [Redirect ''/login''] \<and>
   map status_code
     (responses (snd (app production_config calm fresh_ctx (browser_get ''/dashboard'' None)))) =
     [Some 302]"
proof -
  have d: "dispatch production_config (browser_get ''/dashboard'' None) = Some Dashboard"
    by (simp add: dispatch_dashboard browser_get_def)
  have r: "resolve calm fresh_ctx (browser_get ''/dashboard'' None) = Inr None"
    by (simp add: resolve_anonymous_iff browser_get_def)
  from dashboard_requires_authentication[OF d r] d r
  show ?thesis by blast
qed

text \<open>
  C5. A request whose session holds a user id that no row answers to any more, the
  lookup itself succeeding, resolves to no user: \<^verbatim>\<open>passport.session()\<close> drops the
  reference and lets the request go on, without an error. On \<^verbatim>\<open>/dashboard\<close> the
  answer is the redirect to \<^verbatim>\<open>/login\<close>, and nothing in the trace is an error.
\<close>

theorem dangling_session_is_anonymous:
  assumes "session_cookie rq = Some sid" "sessions c sid = Some (Some i)"
    and "findUnique (db c) i = None" "lookup_fault env = None"
  shows "resolve env c rq = Inr None \<and>
         passport_session env (session_middleware env rq c) =
           (c\<lparr>sessionID := sid, session := None, user := None\<rparr>,
            [Log SESSION ''Loading user from session''], Next) \<and>
         (dispatch cfg rq = Some Dashboard \<longrightarrow>
            responses (snd (app cfg env c rq)) = [Redirect ''/login''] \<and>
            \<not> list_ex is_error_event (snd (app cfg env c rq)))"
proof -
  have r: "resolve env c rq = Inr None"
    using assms by (simp add: resolve_anonymous_iff)
  have s: "session_middleware env rq c = c\<lparr>sessionID := sid, session := Some i, user := None\<rparr>"
    using assms(1,2) by (simp add: session_middleware_def)
  have "passport_session env (session_middleware env rq c) =
           (c\<lparr>sessionID := sid, session := None, user := None\<rparr>,
            [Log SESSION ''Loading user from session''], Next)"
    using assms(3,4) by (simp add: s passport_session_def deserializeUser_def prisma_call_def)
  with r dashboard_anonymous_response[OF _ r, of cfg] show ?thesis by simp
qed

theorem dangling_session_is_anonymous_witness:
  "findUnique (db (fresh_ctx\<lparr>sessions := [5 \<mapsto> Some 42]\<rparr>)) 42 = None \<and>
   resolve calm (fresh_ctx\<lparr>sessions := [5 \<mapsto> Some 42]\<rparr>) (browser_get ''/dashboard'' (Some 5)) =
     Inr None \<and>
   responses (snd (app production_config calm (fresh_ctx\<lparr>sessions := [5 \<mapsto> Some 42]\<rparr>)
                     (browser_get ''/dashboard'' (Some 5)))) = [Redirect ''/login''] \<and>
   \<not> list_ex is_error_event
       (snd (app production_config calm (fresh_ctx\<lparr>sessions := [5 \<mapsto> Some 42]\<rparr>)
               (browser_get ''/dashboard'' (Some 5))))"
proof -
  let ?c = "fresh_ctx\<lparr>sessions := [5 \<mapsto> Some 42]\<rparr>"
  let ?rq = "browser_get ''/dashboard'' (Some 5)"
  have a: "session_cookie ?rq = Some 5" "dispatch production_config ?rq = Some Dashboard"
    by (simp_all add: dispatch_dashboard browser_get_def)
  have b: "sessions ?c 5 = Some (Some 42)" by simp
  have d: "findUnique (db ?c) 42 = None"
    by (simp add: findUnique_def fresh_ctx_def empty_store_def)
  have f: "lookup_fault calm = None" by (simp add: calm_def)
  from dangling_session_is_anonymous[OF a(1) b d f, of production_config] a d
  show ?thesis by blast
qed

section \<open>The error handler\<close>

lemma resolve_status_500:
  "resolve_status e = 500 \<longleftrightarrow> status e = None \<or> status e = Some 0 \<or> status e = Some 500"
  by (simp add: resolve_status_def split: option.splits)

text \<open>
  C7, as stated, fails: the handler masks the message only when the status is 500. A
  fault with status 503, server-caused, is shown with its own message.
\<close>

theorem server_fault_message_not_masked:
  "spec_server_caused (resolve_status unavailable) \<and>
   responses (error_handler (browser_get ''/auth/google/callback'' None) unavailable) =
     [ErrorPage 503 ''The authorization server is unavailable''] \<and>
   map shown_message (responses (error_handler (browser_get ''/auth/google/callback'' None) unavailable))
     \<noteq> [Some (spec_shown_message (browser_get ''/auth/google/callback'' None) unavailable)]"
  by (simp add: error_handler_def resolve_status_def unavailable_def browser_get_def
      responses_def spec_server_caused_def spec_shown_message_def)

text \<open>
  C7, amended. The error handler sends one response with the fault's status
  (\<^verbatim>\<open>err.status\<close>, or 500 when it is missing or zero): JSON when the client accepts JSON
  and not HTML, the error page otherwise. The message shown is the generic one exactly
  when that status is 500, and the fault's own message otherwise.
\<close>

theorem error_response_shape:
  "\<exists>r. responses (error_handler rq e) = [r] \<and>
       status_code r = Some (resolve_status e) \<and>
       (is_json r \<longleftrightarrow> accepts_json rq \<and> \<not> accepts_html rq) \<and>
       shown_message r =
         Some (if status e = None \<or> status e = Some 0 \<or> status e = Some 500
               then generic_message r else message e)"
proof (cases "accepts_json rq \<and> \<not> accepts_html rq")
  case True
  let ?r = "Json (resolve_status e) (if resolve_status e = 500 then ''Internal server error'' else message e)"
  have "responses (error_handler rq e) = [?r]"
    using True by (simp add: error_handler_def responses_def Let_def)
  moreover have "status_code ?r = Some (resolve_status e)" by simp
  moreover have "is_json ?r \<longleftrightarrow> accepts_json rq \<and> \<not> accepts_html rq" using True by simp
  moreover have "shown_message ?r =
         Some (if status e = None \<or> status e = Some 0 \<or> status e = Some 500
               then generic_message ?r else message e)"
    using resolve_status_500[of e] by simp
  ultimately show ?thesis by blast
next
  case False
  let ?r = "ErrorPage (resolve_status e) (if resolve_status e = 500 then ''Ocorreu um erro inesperado.'' else message e)"
  have "responses (error_handler rq e) = [?r]"
    using False by (auto simp add: error_handler_def responses_def Let_def)
  moreover have "status_code ?r = Some (resolve_status e)" by simp
  moreover have "is_json ?r \<longleftrightarrow> accepts_json rq \<and> \<not> accepts_html rq" using False by simp
  moreover have "shown_message ?r =
         Some (if status e = None \<or> status e = Some 0 \<or> status e = Some 500
               then generic_message ?r else message e)"
    using resolve_status_500[of e] by simp
  ultimately show ?thesis by blast
qed

theorem error_response_shape_witness:
  "responses (error_handler (browser_get ''/dashboard'' None) \<lparr>status = None, message = ''db down''\<rparr>) =
     [ErrorPage 500 ''Ocorreu um erro inesperado.''] \<and>
   (\<exists>r. responses (error_handler (browser_get ''/dashboard'' None) \<lparr>status = None, message = ''db down''\<rparr>) = [r] \<and>
        status_code r = Some 500 \<and> \<not> is_json r \<and> shown_message r = Some (generic_message r))"
proof -
  let ?rq = "browser_get ''/dashboard'' None"
  let ?e = "\<lparr>status = None, message = ''db down''\<rparr>"
  from error_response_shape[of ?rq ?e] obtain r where r:
    "responses (error_handler ?rq ?e) = [r]" "status_code r = Some (resolve_status ?e)"
    "is_json r \<longleftrightarrow> accepts_json ?rq \<and> \<not> accepts_html ?rq"
    "shown_message r = Some (if status ?e = None \<or> status ?e = Some 0 \<or> status ?e = Some 500
               then generic_message r else message ?e)"
    by blast
  have "responses (error_handler ?rq ?e) = [ErrorPage 500 ''Ocorreu um erro inesperado.'']"
    by (simp add: error_handler_def resolve_status_def browser_get_def responses_def)
  moreover have "status_code r = Some 500 \<and> \<not> is_json r \<and> shown_message r = Some (generic_message r)"
    using r(2,3,4) by (simp add: resolve_status_def browser_get_def)
  ultimately show ?thesis using r(1) by blast
qed

section \<open>The dev login\<close>

lemmas app_eval = app_def session_middleware_def passport_session_def deserializeUser_def
  findUnique_def findMany_def dispatch_def routes_def response_end_def session_changed_def
  dashboard_def ensureAuthenticated_def isAuthenticated_def logout_def req_logout_def
  browser_get_def responses_def production_config_def error_handler_def resolve_status_def



section \<open>The scenario of the test suite\<close>

text \<open>
  The run that \<^verbatim>\<open>routes.test.js\<close> makes with one client: \<^verbatim>\<open>/dev-login\<close> redirects to
  \<^verbatim>\<open>/dashboard\<close>, \<^verbatim>\<open>/dashboard\<close> then renders, \<^verbatim>\<open>/logout\<close> redirects to \<^verbatim>\<open>/\<close>, and
  \<^verbatim>\<open>/dashboard\<close> redirects to \<^verbatim>\<open>/login\<close> again.
\<close>

lemma scenario_dev_login:
  "app cfg calm fresh_ctx (browser_get ''/dev-login'' None) =
     (\<lparr>db = \<lparr>rows = [create_row testUser 1 10], seq = 1\<rparr>,
       sessions = [2 \<mapsto> Some 1], sessionID = 2, session = Some 1,
       user = Some (create_row testUser 1 10)\<rparr>,
      [Log SESSION ''New HTTP request'',
       Log ROUTE ''Dev login endpoint called (/dev-login)'',
       Log SESSION ''Saving user reference into session'', SessionWrite 1,
       SaveRequested, SaveAcked,
       Log AUTH ''Dev user logged in successfully'', Redirect ''/dashboard''])"
  by (simp add: app_eval web_eval store_eval)

lemma login_logout_scenario:
  "(case app cfg calm fresh_ctx (browser_get ''/dev-login'' None) of (c1, t1) \<Rightarrow>
    case app cfg calm c1 (browser_get ''/dashboard'' (Some (sessionID c1))) of (c2, t2) \<Rightarrow>
    case app cfg (calm\<lparr>sid_regen := 3\<rparr>) c2 (browser_get ''/logout'' (Some (sessionID c1))) of (c3, t3) \<Rightarrow>
    case app cfg calm c3 (browser_get ''/dashboard'' (Some (sessionID c1))) of (c4, t4) \<Rightarrow>
      responses t1 = [Redirect ''/dashboard''] \<and>
      responses t2 = [Page ''dashboard'' [create_row testUser 1 10]] \<and>
      responses t3 = [Redirect ''/''] \<and>
      responses t4 = [Redirect ''/login''])"
  by (simp add: scenario_dev_login) (simp add: app_eval web_eval store_eval)

end
